theory Spec2Isabelle
  imports Main "HOL-Library.Sublist"
begin

section \<open>Data model\<close>

text \<open>
  JavaScript strings are sequences of UTF-16 code units; the keyword tables of the
  program are written out as the code units of their characters. Timestamps are
  milliseconds since the epoch, as \<open>Date.now()\<close> returns them.
\<close>

type_synonym jstring = "nat list"
type_synonym timestamp = int

datatype phase = IntentDetection | Confirmation | Approval | DataCollection | Recommendation

record travel_dates =
  td_start :: "timestamp option"
  td_end :: "timestamp option"

record intent =
  destination :: "jstring option"
  travelDates :: travel_dates
  confirmed :: bool
  userApproved :: bool
  detectedAt :: "timestamp option"
  confirmedAt :: "timestamp option"

datatype role = User | Assistant

record message =
  role :: role
  content :: jstring
  timestamp :: timestamp

text \<open>
  An interruption of the agent SDK (a tool call waiting for approval), and the summary
  the chat handler stores of it: \<open>{ name, agentName, arguments, original }\<close>.
\<close>

record approval_item =
  item_name :: jstring
  item_agent :: jstring
  item_arguments :: jstring

record interruption =
  name :: jstring
  agentName :: jstring
  arguments :: jstring
  original :: "approval_item option"

text \<open>
  The session object of \<open>createSession\<close>. The payloads of the external agents
  (usage data, plans, recommendation) and the \<open>OpenAIConversationsSession\<close>
  instance are opaque to this module; they are modelled by handles.
\<close>

record session =
  sessionId :: jstring
  userId :: jstring
  createdAt :: timestamp
  lastActivityAt :: timestamp
  expiresAt :: timestamp
  conversationsSession :: nat
  phase :: phase
  intent :: intent
  usageData :: "nat option"
  roamingPlans :: "nat list"
  recommendation :: "nat option"
  messages :: "message list"
  pendingRunState :: "jstring option"
  pendingInterruptions :: "interruption list"

text \<open>
  The \<open>updates\<close> argument of \<open>updateSession\<close>: an object holding any subset of the
  session's keys. \<open>None\<close> is a key that is not there. The keys \<open>lastActivityAt\<close>,
  \<open>expiresAt\<close> and \<open>conversationsSession\<close> are left out: \<open>updateSession\<close> overwrites
  them after the spread whatever \<open>updates\<close> holds.
\<close>

record session_updates =
  u_sessionId :: "jstring option"
  u_userId :: "jstring option"
  u_createdAt :: "timestamp option"
  u_phase :: "phase option"
  u_intent :: "intent option"
  u_usageData :: "nat option option"
  u_roamingPlans :: "nat list option"
  u_recommendation :: "nat option option"
  u_messages :: "message list option"
  u_pendingRunState :: "jstring option option"
  u_pendingInterruptions :: "interruption list option"

definition no_updates :: session_updates where
  "no_updates = \<lparr> u_sessionId = None, u_userId = None, u_createdAt = None, u_phase = None,
     u_intent = None, u_usageData = None, u_roamingPlans = None, u_recommendation = None,
     u_messages = None, u_pendingRunState = None, u_pendingInterruptions = None \<rparr>"

text \<open>
  The module state: the \<open>sessions\<close> map, and the number of clock reads made so far.
  Every \<open>new Date()\<close> and \<open>Date.now()\<close> of the source is one read of the clock
  \<open>clk\<close>, which gives the value of the n-th read; two reads in one function are two
  values.
\<close>

record world =
  sessions :: "jstring \<rightharpoonup> session"
  ticks :: nat
  runs :: nat

type_synonym clock = "nat \<Rightarrow> timestamp"

definition readClock :: "clock \<Rightarrow> world \<Rightarrow> timestamp \<times> world" where
  "readClock clk w = (clk (ticks w), w\<lparr>ticks := Suc (ticks w)\<rparr>)"

section \<open>Session store (conversation/state.js)\<close>

definition initialIntent :: intent where
  "initialIntent = \<lparr> destination = None,
     travelDates = \<lparr> td_start = None, td_end = None \<rparr>,
     confirmed = False, userApproved = False, detectedAt = None, confirmedAt = None \<rparr>"

text \<open>
  \<open>createSession\<close>: the conversation instance \<open>conv\<close> and the identifier \<open>sid\<close> it
  reports come from the agent SDK. \<open>ttl\<close> is \<open>SESSION_TIMEOUT_MS\<close>.
\<close>

definition createSession :: "clock \<Rightarrow> int \<Rightarrow> nat \<Rightarrow> jstring \<Rightarrow> jstring \<Rightarrow> world \<Rightarrow> jstring \<times> world" where
  "createSession clk ttl conv sid uid w =
     (let (tCreated, w1) = readClock clk w;
          (tActivity, w2) = readClock clk w1;
          (tNow, w3) = readClock clk w2;
          newSession = \<lparr> sessionId = sid, userId = uid, createdAt = tCreated,
            lastActivityAt = tActivity, expiresAt = tNow + ttl,
            conversationsSession = conv, phase = IntentDetection, intent = initialIntent,
            usageData = None, roamingPlans = [], recommendation = None, messages = [],
            pendingRunState = None, pendingInterruptions = [] \<rparr>
      in (sid, w3\<lparr>sessions := (sessions w3)(sid \<mapsto> newSession)\<rparr>))"

text \<open>
  \<open>getSession\<close>: a falsy (empty) identifier and an unknown one give \<open>null\<close> without
  reading the clock; an expired session is deleted.
\<close>

definition getSession :: "clock \<Rightarrow> jstring \<Rightarrow> world \<Rightarrow> session option \<times> world" where
  "getSession clk sid w =
     (if sid = [] then (None, w)
      else case sessions w sid of
        None \<Rightarrow> (None, w)
      | Some s \<Rightarrow>
          (let (now, w1) = readClock clk w
           in if now > expiresAt s
              then (None, w1\<lparr>sessions := (sessions w1)(sid := None)\<rparr>)
              else (Some s, w1)))"

definition MAX_MESSAGES :: nat where
  "MAX_MESSAGES = 20"

text \<open>\<open>messages.slice(-n)\<close>: the last \<open>n\<close> entries, all of them when there are fewer.\<close>

definition slice_last :: "nat \<Rightarrow> 'a list \<Rightarrow> 'a list" where
  "slice_last n xs = drop (length xs - n) xs"

text \<open>The spread \<open>{ ...session, ...updates }\<close>.\<close>

definition spread :: "session \<Rightarrow> session_updates \<Rightarrow> session" where
  "spread s u = s\<lparr>
     sessionId := (case u_sessionId u of None \<Rightarrow> sessionId s | Some v \<Rightarrow> v),
     userId := (case u_userId u of None \<Rightarrow> userId s | Some v \<Rightarrow> v),
     createdAt := (case u_createdAt u of None \<Rightarrow> createdAt s | Some v \<Rightarrow> v),
     phase := (case u_phase u of None \<Rightarrow> phase s | Some v \<Rightarrow> v),
     intent := (case u_intent u of None \<Rightarrow> intent s | Some v \<Rightarrow> v),
     usageData := (case u_usageData u of None \<Rightarrow> usageData s | Some v \<Rightarrow> v),
     roamingPlans := (case u_roamingPlans u of None \<Rightarrow> roamingPlans s | Some v \<Rightarrow> v),
     recommendation := (case u_recommendation u of None \<Rightarrow> recommendation s | Some v \<Rightarrow> v),
     pendingRunState := (case u_pendingRunState u of None \<Rightarrow> pendingRunState s | Some v \<Rightarrow> v),
     pendingInterruptions :=
       (case u_pendingInterruptions u of None \<Rightarrow> pendingInterruptions s | Some v \<Rightarrow> v)\<rparr>"

definition updateSession ::
  "clock \<Rightarrow> int \<Rightarrow> jstring \<Rightarrow> session_updates \<Rightarrow> world \<Rightarrow> session option \<times> world" where
  "updateSession clk ttl sid updates w =
     (case getSession clk sid w of
        (None, w1) \<Rightarrow> (None, w1)
      | (Some s, w1) \<Rightarrow>
          (let messages0 = (case u_messages updates of None \<Rightarrow> messages s | Some ms \<Rightarrow> ms);
               messages1 = (if length messages0 > MAX_MESSAGES
                            then slice_last MAX_MESSAGES messages0 else messages0);
               (tActivity, w2) = readClock clk w1;
               (tNow, w3) = readClock clk w2;
               updatedSession = (spread s updates)\<lparr>
                 messages := messages1,
                 conversationsSession := conversationsSession s,
                 lastActivityAt := tActivity,
                 expiresAt := tNow + ttl\<rparr>
           in (Some updatedSession, w3\<lparr>sessions := (sessions w3)(sid \<mapsto> updatedSession)\<rparr>)))"

text \<open>The partial intent object of \<open>updateIntent\<close>, spread over the stored intent.\<close>

record intent_updates =
  iu_destination :: "jstring option option"
  iu_travelDates :: "travel_dates option"
  iu_confirmed :: "bool option"
  iu_userApproved :: "bool option"
  iu_detectedAt :: "timestamp option option"
  iu_confirmedAt :: "timestamp option option"

definition spreadIntent :: "intent \<Rightarrow> intent_updates \<Rightarrow> intent" where
  "spreadIntent i u = i\<lparr>
     destination := (case iu_destination u of None \<Rightarrow> destination i | Some v \<Rightarrow> v),
     travelDates := (case iu_travelDates u of None \<Rightarrow> travelDates i | Some v \<Rightarrow> v),
     confirmed := (case iu_confirmed u of None \<Rightarrow> confirmed i | Some v \<Rightarrow> v),
     userApproved := (case iu_userApproved u of None \<Rightarrow> userApproved i | Some v \<Rightarrow> v),
     detectedAt := (case iu_detectedAt u of None \<Rightarrow> detectedAt i | Some v \<Rightarrow> v),
     confirmedAt := (case iu_confirmedAt u of None \<Rightarrow> confirmedAt i | Some v \<Rightarrow> v)\<rparr>"

definition updateIntent ::
  "clock \<Rightarrow> int \<Rightarrow> jstring \<Rightarrow> intent_updates \<Rightarrow> world \<Rightarrow> session option \<times> world" where
  "updateIntent clk ttl sid intentUpdates w =
     (case getSession clk sid w of
        (None, w1) \<Rightarrow> (None, w1)
      | (Some s, w1) \<Rightarrow>
          updateSession clk ttl sid
            (no_updates\<lparr>u_intent := Some (spreadIntent (intent s) intentUpdates)\<rparr>) w1)"

text \<open>The table \<open>validTransitions\<close> of \<open>transitionPhase\<close>.\<close>

fun validTransitions :: "phase \<Rightarrow> phase list" where
  "validTransitions IntentDetection = [Confirmation]"
| "validTransitions Confirmation = [Approval, IntentDetection]"
| "validTransitions Approval = [DataCollection, Confirmation]"
| "validTransitions DataCollection = [Recommendation]"
| "validTransitions Recommendation = []"

definition transitionPhase ::
  "clock \<Rightarrow> int \<Rightarrow> jstring \<Rightarrow> phase \<Rightarrow> world \<Rightarrow> session option \<times> world" where
  "transitionPhase clk ttl sid newPhase w =
     (case getSession clk sid w of
        (None, w1) \<Rightarrow> (None, w1)
      | (Some s, w1) \<Rightarrow>
          (let currentPhase = phase s;
               allowedTransitions = validTransitions currentPhase
           in if newPhase \<notin> set allowedTransitions then (Some s, w1)
              else updateSession clk ttl sid (no_updates\<lparr>u_phase := Some newPhase\<rparr>) w1))"

definition setPendingRunState ::
  "clock \<Rightarrow> int \<Rightarrow> jstring \<Rightarrow> jstring \<Rightarrow> interruption list \<Rightarrow> world \<Rightarrow> session option \<times> world" where
  "setPendingRunState clk ttl sid stateString interruptions w =
     updateSession clk ttl sid
       (no_updates\<lparr>u_pendingRunState := Some (Some stateString),
                   u_pendingInterruptions := Some interruptions\<rparr>) w"

definition clearPendingRunState ::
  "clock \<Rightarrow> int \<Rightarrow> jstring \<Rightarrow> world \<Rightarrow> session option \<times> world" where
  "clearPendingRunState clk ttl sid w =
     updateSession clk ttl sid
       (no_updates\<lparr>u_pendingRunState := Some None, u_pendingInterruptions := Some []\<rparr>) w"

section \<open>Rate limiter (the middleware of /api/chat)\<close>

record rate_record =
  count :: nat
  resetAt :: timestamp

definition RATE_LIMIT_REQUESTS :: nat where
  "RATE_LIMIT_REQUESTS = 10"

definition RATE_LIMIT_WINDOW_MS :: int where
  "RATE_LIMIT_WINDOW_MS = 60 * 1000"

datatype rate_decision = Next | TooManyRequests int

text \<open>\<open>Math.ceil(a / 1000)\<close> on an integer number of milliseconds.\<close>

definition ceil_seconds :: "int \<Rightarrow> int" where
  "ceil_seconds a = - ((- a) div 1000)"

definition rateLimit ::
  "timestamp \<Rightarrow> jstring \<Rightarrow> (jstring \<rightharpoonup> rate_record) \<Rightarrow> rate_decision \<times> (jstring \<rightharpoonup> rate_record)" where
  "rateLimit now key store =
     (let record0 = (case store key of
                       None \<Rightarrow> \<lparr> count = 0, resetAt = now + RATE_LIMIT_WINDOW_MS \<rparr>
                     | Some r \<Rightarrow> if now > resetAt r
                                then \<lparr> count = 0, resetAt = now + RATE_LIMIT_WINDOW_MS \<rparr>
                                else r);
          record1 = record0\<lparr>count := count record0 + 1\<rparr>;
          store1 = store(key \<mapsto> record1)
      in if count record1 > RATE_LIMIT_REQUESTS
         then (TooManyRequests (ceil_seconds (resetAt record1 - now)), store1)
         else (Next, store1))"

text \<open>A sequence of requests for one key, at the given arrival times.\<close>

fun rateLimitAll ::
  "jstring \<Rightarrow> timestamp list \<Rightarrow> (jstring \<rightharpoonup> rate_record) \<Rightarrow> rate_decision list \<times> (jstring \<rightharpoonup> rate_record)" where
  "rateLimitAll key [] store = ([], store)"
| "rateLimitAll key (t # ts) store =
     (let (d, store1) = rateLimit t key store;
          (ds, store2) = rateLimitAll key ts store1
      in (d # ds, store2))"

section \<open>Strings and keyword tables\<close>

text \<open>\<open>s.includes(k)\<close>: \<open>k\<close> occurs in \<open>s\<close> as a contiguous run of code units.\<close>

fun js_includes :: "jstring \<Rightarrow> jstring \<Rightarrow> bool" where
  "js_includes [] k = (k = [])"
| "js_includes (c # cs) k = (prefix k (c # cs) \<or> js_includes cs k)"

text \<open>\<open>keywords.some(k => s.includes(k))\<close>.\<close>

definition includes_some :: "jstring \<Rightarrow> jstring list \<Rightarrow> bool" where
  "includes_some s keywords = list_ex (js_includes s) keywords"

text \<open>Truthiness of a value that is \<open>null\<close> or a string: present and not empty.\<close>

fun truthy :: "jstring option \<Rightarrow> bool" where
  "truthy None = False"
| "truthy (Some s) = (s \<noteq> [])"

text \<open>\<open>a || b\<close> for a string \<open>a\<close> that may be missing.\<close>

definition or_else :: "jstring option \<Rightarrow> jstring \<Rightarrow> jstring" where
  "or_else a b = (case a of None \<Rightarrow> b | Some s \<Rightarrow> if s = [] then b else s)"

text \<open>The code units that \<open>trim()\<close> removes: white space and line terminators.\<close>

definition is_js_space :: "nat \<Rightarrow> bool" where
  "is_js_space c = (c \<in> {9, 10, 11, 12, 13, 32, 160, 5760, 8232, 8233, 8239, 8287, 12288, 65279}
     \<or> (8192 \<le> c \<and> c \<le> 8202))"

text \<open>\<open>message.trim().length === 0\<close>.\<close>

fun trims_to_empty :: "jstring \<Rightarrow> bool" where
  "trims_to_empty [] = True"
| "trims_to_empty (c # cs) = (is_js_space c \<and> trims_to_empty cs)"

definition approvalKeywords :: "jstring list" where
  "approvalKeywords = [[26159], [23565], [22909], [111, 107], [79, 75], [21487, 20197],
     [35531], [32380, 32396], [35201], [38656, 35201], [25209, 20934], [21516, 24847],
     [27794, 37679]]"

definition confirmationKeywords :: "jstring list" where
  "confirmationKeywords = [[26159], [23565], [27794, 37679], [27491, 30906], [22909], [79, 75],
     [21487, 20197], [35531, 24171, 25105], [40635, 29033], [32380, 32396], [35201],
     [38656, 35201]]"

definition countryKeywords :: "jstring list" where
  "countryKeywords = [[26085, 26412], [38867, 22283], [32654, 22283], [33521, 22283],
     [27861, 22283], [24503, 22283], [32681, 22823, 21033], [35199, 29677, 29273],
     [27888, 22283], [26032, 21152, 22369], [39340, 20358, 35199, 20126], [39321, 28207],
     [28595, 38272], [20013, 22283], [28595, 27954], [32016, 35199, 34349],
     [21152, 25343, 22823], [36234, 21335], [21360, 23612]]"

text \<open>The four fixed replies of the chat handler.\<close>

definition defaultResponse :: jstring where
  "defaultResponse = [25265, 27465, 65292, 25105, 36935, 21040, 20102, 19968, 20123, 21839,
     38988, 12290, 35531, 31245, 24460, 20877, 35430, 12290]"

definition failureResponse :: jstring where
  "failureResponse = [25265, 27465, 65292, 31995, 32113, 30446, 21069, 28961, 27861, 34389,
     29702, 24744, 30340, 35531, 27714, 12290, 35531, 31245, 24460, 20877, 35430, 12290]"

definition pendingPrompt :: jstring where
  "pendingPrompt = [30446, 21069, 26377, 31561, 24453, 24744, 30906, 35469, 30340, 25805,
     20316, 65306, 26159, 21542, 20801, 35377, 26597, 35426, 28459, 36938, 26041, 26696, 25110,
     29986, 29983, 25512, 34214, 65311, 35531, 22238, 35206, 12300, 22909, 12301, 25110, 12300,
     21487, 20197, 12301, 20358, 25209, 20934, 12290]"

definition approvalPrompt :: jstring where
  "approvalPrompt = [38656, 35201, 24744, 30340, 30906, 35469, 25165, 33021, 32380, 32396,
     65306, 26159, 21542, 20801, 35377, 25105, 26597, 35426, 28459, 36938, 26041, 26696, 25110,
     29986, 29983, 25512, 34214, 65311, 35531, 22238, 35206, 12300, 22909, 12301, 25110, 12300,
     21487, 20197, 12301, 20358, 25209, 20934, 12290]"

section \<open>The external agent layer\<close>

text \<open>
  What the chat handler uses of the agent SDK, as an environment. \<open>'rs\<close> is the SDK's
  \<open>RunState\<close>. A call that throws gives \<open>None\<close>. The result of a run carries the
  pending interruptions, the state to resume from and the final output (which may be
  missing); its \<open>newItems\<close> are only logged and are left out.
  \<^item> \<open>agentAvailable\<close>: \<open>getAgent()\<close> returns the agent instance (it throws otherwise);
  \<^item> \<open>newConversation\<close>: the instance made by \<open>new OpenAIConversationsSession()\<close> and
    the identifier its \<open>getSessionId()\<close> reports;
  \<^item> \<open>fromString\<close>, \<open>stateToString\<close>, \<open>approve\<close>: \<open>RunState.fromString\<close>,
    \<open>state.toString()\<close> and \<open>state.approve(item)\<close>; the last two are taken not to throw;
  \<^item> \<open>runMessage\<close>, \<open>runState\<close>: \<open>run(agent, input, { session })\<close> on a message and on
    a run state, for the conversation instance given first.
\<close>

record 'rs run_result =
  interruptions :: "approval_item list"
  state :: 'rs
  finalOutput :: "jstring option"

record 'rs agent_env =
  agentAvailable :: bool
  newConversation :: "(nat \<times> jstring) option"
  fromString :: "jstring \<Rightarrow> 'rs option"
  stateToString :: "'rs \<Rightarrow> jstring"
  approve :: "'rs \<Rightarrow> approval_item \<Rightarrow> 'rs"
  runMessage :: "nat \<Rightarrow> jstring \<Rightarrow> 'rs run_result option"
  runState :: "nat \<Rightarrow> 'rs \<Rightarrow> 'rs run_result option"

datatype 'a outcome = Returned 'a | Threw | Diverged

text \<open>
  The loop \<open>while (currentResult.interruptions?.length > 0)\<close>: approve every interruption,
  run again. Nothing in the handler bounds it, so the model takes fuel and reports
  \<open>Diverged\<close> when the fuel is used up with interruptions still pending. The field
  \<open>runs\<close> of the world counts the calls of \<open>run\<close>.
\<close>

fun approveLoop ::
  "nat \<Rightarrow> 'rs agent_env \<Rightarrow> nat \<Rightarrow> 'rs run_result \<Rightarrow> world \<Rightarrow> 'rs run_result outcome \<times> world" where
  "approveLoop 0 env conv currentResult w =
     (if interruptions currentResult = [] then (Returned currentResult, w) else (Diverged, w))"
| "approveLoop (Suc fuel) env conv currentResult w =
     (if interruptions currentResult = [] then (Returned currentResult, w)
      else
        (let st = foldl (approve env) (state currentResult) (interruptions currentResult);
             w1 = w\<lparr>runs := Suc (runs w)\<rparr>
         in case runState env conv st of
              None \<Rightarrow> (Threw, w1)
            | Some r \<Rightarrow> approveLoop fuel env conv r w1))"

text \<open>
  \<open>for (const interruption of session.pendingInterruptions)
     if (interruption.original) restored.approve(interruption.original)\<close>
\<close>

definition approveOriginals :: "'rs agent_env \<Rightarrow> 'rs \<Rightarrow> interruption list \<Rightarrow> 'rs" where
  "approveOriginals env restored ints =
     foldl (\<lambda>r i. case original i of None \<Rightarrow> r | Some item \<Rightarrow> approve env r item) restored ints"

definition simplify :: "approval_item \<Rightarrow> interruption" where
  "simplify i = \<lparr> name = item_name i, agentName = item_agent i,
     arguments = item_arguments i, original = Some i \<rparr>"

section \<open>The chat handler (handleChatRequest)\<close>

text \<open>
  The body of the \<open>try\<close> block: what the turn replies, and what it does to the store.
  \<open>session\<close> is the handler's local session object.
\<close>

definition runTurn ::
  "nat \<Rightarrow> 'rs agent_env \<Rightarrow> clock \<Rightarrow> int \<Rightarrow> session \<Rightarrow> jstring \<Rightarrow> world \<Rightarrow> jstring outcome \<times> world" where
  "runTurn fuel env clk ttl session message w =
     (let isApprovalMessage = includes_some message approvalKeywords
      in if truthy (pendingRunState session) then
           (if isApprovalMessage then
              (case fromString env (the (pendingRunState session)) of
                 None \<Rightarrow> (Threw, w)
               | Some restored0 \<Rightarrow>
                   (let restored = approveOriginals env restored0 (pendingInterruptions session);
                        w1 = snd (clearPendingRunState clk ttl (sessionId session) w);
                        w2 = w1\<lparr>runs := Suc (runs w1)\<rparr>
                    in case runState env (conversationsSession session) restored of
                         None \<Rightarrow> (Threw, w2)
                       | Some resumed \<Rightarrow>
                           (Returned (or_else (finalOutput resumed) defaultResponse), w2)))
            else (Returned pendingPrompt, w))
         else
           (let w1 = w\<lparr>runs := Suc (runs w)\<rparr>
            in case runMessage env (conversationsSession session) message of
                 None \<Rightarrow> (Threw, w1)
               | Some firstResult \<Rightarrow>
                   if interruptions firstResult \<noteq> [] then
                     (if isApprovalMessage then
                        (case approveLoop fuel env (conversationsSession session) firstResult w1 of
                           (Returned currentResult, w2) \<Rightarrow>
                             (Returned (or_else (finalOutput currentResult) defaultResponse), w2)
                         | (Threw, w2) \<Rightarrow> (Threw, w2)
                         | (Diverged, w2) \<Rightarrow> (Diverged, w2))
                      else
                        (let simplified = map simplify (interruptions firstResult);
                             w2 = snd (setPendingRunState clk ttl (sessionId session)
                                         (stateToString env (state firstResult)) simplified w1)
                         in (Returned approvalPrompt, w2)))
                   else (Returned (or_else (finalOutput firstResult) defaultResponse), w1)))"

text \<open>\<open>analyzeAgentResponse\<close>: the \<open>{ intent, phase }\<close> pair, \<open>null\<close> as \<open>None\<close>.\<close>

record state_updates =
  su_intent :: "intent_updates option"
  su_phase :: "phase option"

definition no_intent_updates :: intent_updates where
  "no_intent_updates = \<lparr> iu_destination = None, iu_travelDates = None, iu_confirmed = None,
     iu_userApproved = None,
     iu_detectedAt = None, iu_confirmedAt = None \<rparr>"

definition detectCountry :: "jstring \<Rightarrow> jstring \<Rightarrow> jstring option" where
  "detectCountry userMessage response =
     find (\<lambda>country. js_includes userMessage country \<or> js_includes response country)
       countryKeywords"

definition analyzeAgentResponse ::
  "clock \<Rightarrow> jstring \<Rightarrow> session \<Rightarrow> jstring \<Rightarrow> world \<Rightarrow> state_updates \<times> world" where
  "analyzeAgentResponse clk response session userMessage w =
     (let detectedCountry = detectCountry userMessage response
      in if phase session = IntentDetection then
           (if truthy detectedCountry \<and> \<not> truthy (destination (intent session)) then
              (let (t, w1) = readClock clk w
               in (\<lparr> su_intent = Some (no_intent_updates\<lparr>
                        iu_destination := Some detectedCountry,
                        iu_detectedAt := Some (Some t),
                        iu_confirmed := Some False,
                        iu_userApproved := Some False\<rparr>),
                      su_phase = Some Confirmation \<rparr>, w1))
            else (\<lparr> su_intent = None, su_phase = None \<rparr>, w))
         else if phase session = Confirmation then
           (if includes_some userMessage confirmationKeywords then
              (let (t, w1) = readClock clk w
               in (\<lparr> su_intent = Some (no_intent_updates\<lparr>
                        iu_confirmed := Some True,
                        iu_confirmedAt := Some (Some t),
                        iu_userApproved := Some True\<rparr>),
                      su_phase = Some DataCollection \<rparr>, w1))
            else (\<lparr> su_intent = None, su_phase = None \<rparr>, w))
         else (\<lparr> su_intent = None, su_phase = None \<rparr>, w))"

datatype chat_error =
  MissingUserId | MissingMessage | SessionNotFound | SessionNotOwned
  | ConversationFailed | AgentFailed | TypeError

record chat_response =
  r_sessionId :: jstring
  r_response :: jstring
  r_phase :: phase
  data_intent :: "intent option"
  data_usage :: "nat option"
  data_plans :: "nat list option"
  data_recommendation :: "nat option"

text \<open>
  Getting or creating the session. The result is the key under which the session object
  is stored, and the object.
\<close>

definition acquireSession ::
  "'rs agent_env \<Rightarrow> clock \<Rightarrow> int \<Rightarrow> jstring \<Rightarrow> jstring option \<Rightarrow> world
     \<Rightarrow> (chat_error + jstring \<times> session) \<times> world" where
  "acquireSession env clk ttl uid sessionIdArg w =
     (if truthy sessionIdArg then
        (case getSession clk (the sessionIdArg) w of
           (None, w1) \<Rightarrow> (Inl SessionNotFound, w1)
         | (Some s, w1) \<Rightarrow>
             if userId s \<noteq> uid then (Inl SessionNotOwned, w1)
             else (Inr (the sessionIdArg, s), w1))
      else
        (case newConversation env of
           None \<Rightarrow> (Inl ConversationFailed, w)
         | Some (conv, newId) \<Rightarrow>
             (let (newSessionId, w1) = createSession clk ttl conv newId uid w
              in case getSession clk newSessionId w1 of
                   (None, w2) \<Rightarrow> (Inl TypeError, w2)
                 | (Some s, w2) \<Rightarrow> (Inr (newSessionId, s), w2))))"

text \<open>
  The \<open>data\<close> object of the response holds a field only when its value is truthy (for
  the plans: when the list is not empty).
\<close>

definition buildResponse :: "session \<Rightarrow> jstring \<Rightarrow> chat_response" where
  "buildResponse updatedSession assistantResponse =
     \<lparr> r_sessionId = sessionId updatedSession,
       r_response = assistantResponse,
       r_phase = phase updatedSession,
       data_intent = (if truthy (destination (intent updatedSession))
                      then Some (intent updatedSession) else None),
       data_usage = usageData updatedSession,
       data_plans = (if length (roamingPlans updatedSession) > 0
                     then Some (roamingPlans updatedSession) else None),
       data_recommendation = recommendation updatedSession \<rparr>"

text \<open>
  The part of the handler after the \<open>try\<close> block: the heuristics, the two conditional
  store updates, the assistant message and the final \<open>updateSession\<close>. \<open>session\<close> is the
  local object, whose \<open>messages\<close> array already holds the user message; the assistant
  message is pushed on the same array, which the final \<open>updateSession\<close> then stores
  under the session's identifier. A final \<open>updateSession\<close> that returns \<open>null\<close> makes
  \<open>updatedSession.sessionId\<close> throw.
\<close>

definition finishTurn ::
  "clock \<Rightarrow> int \<Rightarrow> session \<Rightarrow> jstring \<Rightarrow> jstring \<Rightarrow> world \<Rightarrow> (chat_error + chat_response) \<times> world" where
  "finishTurn clk ttl session message assistantResponse w =
     (let (stateUpdates, w1) = analyzeAgentResponse clk assistantResponse session message w;
          w2 = (case su_intent stateUpdates of
                  None \<Rightarrow> w1
                | Some iu \<Rightarrow> snd (updateIntent clk ttl (sessionId session) iu w1));
          w3 = (case su_phase stateUpdates of
                  None \<Rightarrow> w2
                | Some p \<Rightarrow> snd (transitionPhase clk ttl (sessionId session) p w2));
          (t, w4) = readClock clk w3;
          assistantMessage = \<lparr> role = Assistant, content = assistantResponse, timestamp = t \<rparr>;
          (updated, w5) = updateSession clk ttl (sessionId session)
             (no_updates\<lparr>u_messages := Some (messages session @ [assistantMessage])\<rparr>) w4
      in case updated of
           None \<Rightarrow> (Inl TypeError, w5)
         | Some updatedSession \<Rightarrow> (Inr (buildResponse updatedSession assistantResponse), w5))"

text \<open>
  \<open>handleChatRequest\<close>. \<open>session.messages.push(userMessage)\<close> changes the array of the
  stored session object, which is the object the handler holds: the store sees the user
  message at once. The result is \<open>None\<close> when the approval loop does not end.
\<close>

definition handleChatRequest ::
  "nat \<Rightarrow> 'rs agent_env \<Rightarrow> clock \<Rightarrow> int \<Rightarrow> jstring \<Rightarrow> jstring \<Rightarrow> jstring option \<Rightarrow> world
     \<Rightarrow> ((chat_error + chat_response) \<times> world) option" where
  "handleChatRequest fuel env clk ttl uid message sessionIdArg w =
     (if uid = [] then Some (Inl MissingUserId, w)
      else if message = [] \<or> trims_to_empty message then Some (Inl MissingMessage, w)
      else case acquireSession env clk ttl uid sessionIdArg w of
        (Inl e, w1) \<Rightarrow> Some (Inl e, w1)
      | (Inr (key, session0), w1) \<Rightarrow>
          (let (t, w2) = readClock clk w1;
               userMessage = \<lparr> role = User, content = message, timestamp = t \<rparr>;
               session = session0\<lparr>messages := messages session0 @ [userMessage]\<rparr>;
               w3 = w2\<lparr>sessions := (sessions w2)(key \<mapsto> session)\<rparr>
           in if \<not> agentAvailable env then Some (Inl AgentFailed, w3)
              else case runTurn fuel env clk ttl session message w3 of
                (Diverged, w4) \<Rightarrow> None
              | (Threw, w4) \<Rightarrow> Some (finishTurn clk ttl session message failureResponse w4)
              | (Returned assistantResponse, w4) \<Rightarrow>
                  Some (finishTurn clk ttl session message assistantResponse w4)))"

section \<open>The approval predicates of the gated tools (agent/config.js)\<close>

text \<open>
  The context an approval predicate receives. \<open>ctx?.session?.intent?.userApproved\<close> is
  \<open>undefined\<close> (falsy) when the context or its session is missing.
\<close>

record run_context =
  ctx_session :: "session option"

definition ctx_userApproved :: "run_context option \<Rightarrow> bool" where
  "ctx_userApproved ctx =
     (case ctx of None \<Rightarrow> False
      | Some c \<Rightarrow> (case ctx_session c of None \<Rightarrow> False | Some s \<Rightarrow> userApproved (intent s)))"

text \<open>
  \<open>toLowerCase\<close> on the code units of the Latin capital letters A to Z; every other
  code unit, the CJK characters of the trigger words among them, is taken as unchanged.
\<close>

definition toLowerCase :: "jstring \<Rightarrow> jstring" where
  "toLowerCase s = map (\<lambda>c. if 65 \<le> c \<and> c \<le> 90 then c + 32 else c) s"

definition trigger :: "jstring list" where
  "trigger = [[26041, 26696], [26597, 35426], [25512, 34214], [28459, 36938]]"

text \<open>
  \<open>needsApproval\<close> of \<open>query_plans\<close>; \<open>input\<close> may be missing
  (\<open>String(input || '')\<close>). The tool's description gives the destination country name
  as its input and says that the first call needs the user's approval.
\<close>

definition needsApproval_query_plans :: "run_context option \<Rightarrow> jstring option \<Rightarrow> bool" where
  "needsApproval_query_plans ctx input =
     (let lower = toLowerCase (or_else input []);
          should = (\<not> ctx_userApproved ctx \<and> includes_some lower trigger)
      in should)"

definition needsApproval_get_usage :: "run_context option \<Rightarrow> bool" where
  "needsApproval_get_usage ctx = (\<not> ctx_userApproved ctx)"

definition needsApproval_analyze_and_recommend :: "run_context option \<Rightarrow> bool" where
  "needsApproval_analyze_and_recommend ctx = (\<not> ctx_userApproved ctx)"

section \<open>Derived quantities and a sample store\<close>

definition session_lifetime :: "session \<Rightarrow> int" where
  "session_lifetime s = expiresAt s - lastActivityAt s"

definition emptyWorld :: world where
  "emptyWorld = \<lparr> sessions = Map.empty, ticks = 0, runs = 0 \<rparr>"

text \<open>
  A session as \<open>createSession\<close> leaves it with a 30 minute timeout (identifier \<open>s1\<close>,
  user \<open>u1\<close>), and the store holding just this session.
\<close>

definition demoSession :: session where
  "demoSession = \<lparr> sessionId = [115, 49], userId = [117, 49], createdAt = 0,
     lastActivityAt = 1, expiresAt = 1800002, conversationsSession = 0,
     phase = IntentDetection, intent = initialIntent, usageData = None, roamingPlans = [],
     recommendation = None, messages = [], pendingRunState = None,
     pendingInterruptions = [] \<rparr>"

definition demoWorld :: world where
  "demoWorld = \<lparr> sessions = [[115, 49] \<mapsto> demoSession], ticks = 3, runs = 0 \<rparr>"

definition demoMessages :: "nat \<Rightarrow> message list" where
  "demoMessages n = map (\<lambda>i. \<lparr> role = User, content = [], timestamp = int i \<rparr>) [0..<n]"

section \<open>Predicates used in the statements about the chat handler\<close>

text \<open>The three payload fields of a session are as \<open>createSession\<close> set them.\<close>

definition untouched :: "session \<Rightarrow> bool" where
  "untouched s \<longleftrightarrow> usageData s = None \<and> roamingPlans s = [] \<and> recommendation s = None"

definition all_untouched :: "world \<Rightarrow> bool" where
  "all_untouched w \<longleftrightarrow> (\<forall>k s. sessions w k = Some s \<longrightarrow> untouched s)"

definition plain_updates :: "session_updates \<Rightarrow> bool" where
  "plain_updates u \<longleftrightarrow> u_usageData u = None \<and> u_roamingPlans u = None \<and> u_recommendation u = None"

text \<open>
  The session does not expire while the turns considered run: any two clock reads are
  less than one timeout apart (\<open>calm\<close>), and the session \<open>sid\<close> of user \<open>uid\<close> is stored
  under its own identifier, is not yet expired at any read, and has the given pending
  run state and pending interruptions (\<open>held\<close>).
\<close>

definition calm :: "clock \<Rightarrow> int \<Rightarrow> bool" where
  "calm clk ttl \<longleftrightarrow> (\<forall>n m. clk n \<le> clk m + ttl)"

definition held ::
  "clock \<Rightarrow> jstring \<Rightarrow> jstring \<Rightarrow> jstring option \<Rightarrow> interruption list \<Rightarrow> world \<Rightarrow> bool" where
  "held clk sid uid prs pis w \<longleftrightarrow>
     sid \<noteq> [] \<and>
     (\<exists>s. sessions w sid = Some s \<and> sessionId s = sid \<and> userId s = uid \<and>
          (\<forall>n. clk n \<le> expiresAt s) \<and>
          pendingRunState s = prs \<and> pendingInterruptions s = pis)"

definition neutral_updates :: "session_updates \<Rightarrow> bool" where
  "neutral_updates u \<longleftrightarrow> u_sessionId u = None \<and> u_userId u = None \<and>
     u_pendingRunState u = None \<and> u_pendingInterruptions u = None"

text \<open>Several requests in a row on one session, each with its own message.\<close>

fun chatTurns ::
  "nat \<Rightarrow> 'rs agent_env \<Rightarrow> clock \<Rightarrow> int \<Rightarrow> jstring \<Rightarrow> jstring \<Rightarrow> jstring list \<Rightarrow> world
     \<Rightarrow> ((chat_error + chat_response) list \<times> world) option" where
  "chatTurns fuel env clk ttl uid sid [] w = Some ([], w)"
| "chatTurns fuel env clk ttl uid sid (m # ms) w =
     (case handleChatRequest fuel env clk ttl uid m (Some sid) w of
        None \<Rightarrow> None
      | Some (r, w1) \<Rightarrow>
          (case chatTurns fuel env clk ttl uid sid ms w1 of
             None \<Rightarrow> None
           | Some (rs, w2) \<Rightarrow> Some (r # rs, w2)))"

section \<open>Sample agents and sessions\<close>

text \<open>
  An agent layer whose fresh run answers \<open>hi\<close> at once and whose resumed run answers
  \<open>done\<close>; the run state is a counter of approvals.
\<close>

text \<open>The same, recording the phase and the intent of the stored session.\<close>

definition staged ::
  "clock \<Rightarrow> jstring \<Rightarrow> jstring \<Rightarrow> phase \<Rightarrow> intent \<Rightarrow> world \<Rightarrow> bool" where
  "staged clk sid uid ph it w \<longleftrightarrow>
     sid \<noteq> [] \<and>
     (\<exists>s. sessions w sid = Some s \<and> sessionId s = sid \<and> userId s = uid \<and>
          (\<forall>n. clk n \<le> expiresAt s) \<and> phase s = ph \<and> intent s = it)"

definition demoEnv :: "nat agent_env" where
  "demoEnv = \<lparr> agentAvailable = True, newConversation = Some (1, [115, 50]),
     fromString = (\<lambda>s. Some 0), stateToString = (\<lambda>r. [115, 116]),
     approve = (\<lambda>r i. Suc r),
     runMessage = (\<lambda>conv m. Some \<lparr> interruptions = [], state = 0, finalOutput = Some [104, 105] \<rparr>),
     runState = (\<lambda>conv r. Some \<lparr> interruptions = [], state = r,
                                  finalOutput = Some [100, 111, 110, 101] \<rparr>) \<rparr>"

text \<open>The same agent layer, but every resumed run throws.\<close>

definition resumeFailsEnv :: "nat agent_env" where
  "resumeFailsEnv = demoEnv\<lparr>runState := (\<lambda>conv r. None)\<rparr>"

text \<open>A session in phase \<open>confirmation\<close> with a detected destination.\<close>

definition confirmationSession :: session where
  "confirmationSession = demoSession\<lparr>phase := Confirmation,
     intent := initialIntent\<lparr>destination := Some [26085, 26412], detectedAt := Some 2\<rparr>\<rparr>"

definition confirmationWorld :: world where
  "confirmationWorld = \<lparr> sessions = [[115, 49] \<mapsto> confirmationSession], ticks = 3, runs = 1 \<rparr>"

text \<open>A suspended session: one tool call waits for approval.\<close>

definition demoItem :: approval_item where
  "demoItem = \<lparr> item_name = [113, 112], item_agent = [112, 97], item_arguments = [] \<rparr>"

definition pendingSession :: session where
  "pendingSession = demoSession\<lparr>pendingRunState := Some [115, 116],
     pendingInterruptions := [simplify demoItem]\<rparr>"

definition pendingWorld :: world where
  "pendingWorld = \<lparr> sessions = [[115, 49] \<mapsto> pendingSession], ticks = 3, runs = 1 \<rparr>"

section \<open>Properties of the session store\<close>

lemma getSession_absent:
  "sessions w sid = None \<Longrightarrow> getSession clk sid w = (None, w)"
  by (simp add: getSession_def)

lemma getSession_alive:
  "sid \<noteq> [] \<Longrightarrow> sessions w sid = Some s \<Longrightarrow> clk (ticks w) \<le> expiresAt s \<Longrightarrow>
   getSession clk sid w = (Some s, w\<lparr>ticks := Suc (ticks w)\<rparr>)"
  by (simp add: getSession_def readClock_def)

lemma getSession_expired:
  "sid \<noteq> [] \<Longrightarrow> sessions w sid = Some s \<Longrightarrow> expiresAt s < clk (ticks w) \<Longrightarrow>
   getSession clk sid w = (None, w\<lparr>ticks := Suc (ticks w), sessions := (sessions w)(sid := None)\<rparr>)"
  by (simp add: getSession_def readClock_def)

lemma getSession_Some_iff:
  "getSession clk sid w = (Some s, w') \<longleftrightarrow>
     sid \<noteq> [] \<and> sessions w sid = Some s \<and> clk (ticks w) \<le> expiresAt s \<and>
     w' = w\<lparr>ticks := Suc (ticks w)\<rparr>"
  by (auto simp: getSession_def readClock_def split: option.splits)

text \<open>
  Claim C9. For a (non-empty) session identifier, \<open>getSession\<close> returns the stored
  session exactly when it is present and the clock read is not past \<open>expiresAt\<close>, the
  boundary \<open>now = expiresAt\<close> included, and then leaves the store as it is; a session
  that is present with \<open>now > expiresAt\<close> is removed from the store by this very call
  and \<open>null\<close> is returned; an absent identifier gives \<open>null\<close> and no change.
\<close>

theorem getSession_lazy_eviction:
  assumes "sid \<noteq> []"
  shows "(fst (getSession clk sid w) = Some s \<longleftrightarrow>
            sessions w sid = Some s \<and> clk (ticks w) \<le> expiresAt s)
       \<and> (sessions w sid = Some s \<and> clk (ticks w) \<le> expiresAt s \<longrightarrow>
            sessions (snd (getSession clk sid w)) = sessions w)
       \<and> (sessions w sid = Some s \<and> expiresAt s < clk (ticks w) \<longrightarrow>
            fst (getSession clk sid w) = None
          \<and> sessions (snd (getSession clk sid w)) = (sessions w)(sid := None))
       \<and> (sessions w sid = None \<longrightarrow>
            fst (getSession clk sid w) = None \<and> sessions (snd (getSession clk sid w)) = sessions w)"
proof (cases "sessions w sid")
  case None
  then show ?thesis by (simp add: getSession_absent)
next
  case (Some t)
  show ?thesis
  proof (cases "clk (ticks w) \<le> expiresAt t")
    case True
    with Some assms show ?thesis by (auto simp: getSession_alive)
  next
    case False
    with Some assms show ?thesis by (auto simp: getSession_expired)
  qed
qed

theorem getSession_lazy_eviction_witness:
  "[115, 49] \<noteq> ([] :: jstring)
   \<and> sessions demoWorld [115, 49] = Some demoSession
   \<and> fst (getSession (\<lambda>n. 1800002) [115, 49] demoWorld) = Some demoSession
   \<and> sessions (snd (getSession (\<lambda>n. 1800002) [115, 49] demoWorld)) = sessions demoWorld
   \<and> fst (getSession (\<lambda>n. 1800003) [115, 49] demoWorld) = None
   \<and> sessions (snd (getSession (\<lambda>n. 1800003) [115, 49] demoWorld)) [115, 49] = None"
  using getSession_lazy_eviction [of "[115, 49]" "\<lambda>n. 1800002" demoWorld demoSession]
    getSession_lazy_eviction [of "[115, 49]" "\<lambda>n. 1800003" demoWorld demoSession]
  by (simp add: demoWorld_def demoSession_def)

lemma updateSession_alive:
  assumes "sid \<noteq> []" "sessions w sid = Some s" "clk (ticks w) \<le> expiresAt s"
  shows "updateSession clk ttl sid u w =
     (let s' = (spread s u)\<lparr>
               messages := (let m = (case u_messages u of None \<Rightarrow> messages s | Some ms \<Rightarrow> ms)
                            in if length m > MAX_MESSAGES then slice_last MAX_MESSAGES m else m),
               conversationsSession := conversationsSession s,
               lastActivityAt := clk (Suc (ticks w)),
               expiresAt := clk (Suc (Suc (ticks w))) + ttl\<rparr>
      in (Some s', \<lparr>sessions = (sessions w)(sid \<mapsto> s'), ticks = Suc (Suc (Suc (ticks w))), runs = runs w\<rparr>))"
  by (simp add: updateSession_def getSession_alive assms readClock_def Let_def)

lemma updateSession_None:
  assumes "fst (getSession clk sid w) = None"
  shows "updateSession clk ttl sid u w = (None, snd (getSession clk sid w))"
  using assms unfolding updateSession_def by (cases "getSession clk sid w") simp

lemma updateSession_SomeD:
  assumes "updateSession clk ttl sid u w = (Some s', w')"
  shows "\<exists>s. sid \<noteq> [] \<and> sessions w sid = Some s \<and> clk (ticks w) \<le> expiresAt s"
proof (cases "getSession clk sid w")
  case (Pair r w1)
  show ?thesis
  proof (cases r)
    case None
    with Pair assms show ?thesis by (simp add: updateSession_def)
  next
    case (Some s)
    with Pair have "getSession clk sid w = (Some s, w1)" by simp
    then show ?thesis unfolding getSession_Some_iff by blast
  qed
qed

lemma slice_last_suffix: "suffix (slice_last n xs) xs"
  by (simp add: slice_last_def suffix_drop)

lemma slice_last_length: "length (slice_last n xs) = min n (length xs)"
  by (simp add: slice_last_def)

text \<open>
  Claim C8. After every successful \<open>updateSession\<close> the stored message list has at most
  20 entries. It is a suffix of the incoming list (the \<open>messages\<close> of the update, or else
  of the session) of length \<open>min 20\<close> of the incoming length: when more than 20 entries
  come in, the last 20 are kept in their order and the oldest are dropped.
\<close>

theorem updateSession_messages_bounded:
  assumes "updateSession clk ttl sid u w = (Some s', w')"
  shows "length (messages s') \<le> 20 \<and> sessions w' sid = Some s' \<and>
    (\<exists>s. sessions w sid = Some s \<and>
       (let incoming = (case u_messages u of None \<Rightarrow> messages s | Some ms \<Rightarrow> ms)
        in suffix (messages s') incoming \<and>
           length (messages s') = min 20 (length incoming) \<and>
           (if length incoming > 20 then messages s' = drop (length incoming - 20) incoming
            else messages s' = incoming)))"
proof -
  from updateSession_SomeD[OF assms] obtain s where
    s: "sid \<noteq> []" "sessions w sid = Some s" "clk (ticks w) \<le> expiresAt s" by blast
  define incoming where "incoming = (case u_messages u of None \<Rightarrow> messages s | Some ms \<Rightarrow> ms)"
  from assms have m: "messages s' =
      (if length incoming > MAX_MESSAGES then slice_last MAX_MESSAGES incoming else incoming)"
    and w': "sessions w' sid = Some s'"
    unfolding updateSession_alive[where clk=clk, OF s] incoming_def by (auto simp: Let_def)
  have "suffix (messages s') incoming"
    using m by (simp add: slice_last_suffix)
  moreover have "length (messages s') = min 20 (length incoming)"
    using m by (simp add: slice_last_length MAX_MESSAGES_def)
  moreover have "if length incoming > 20 then messages s' = drop (length incoming - 20) incoming
            else messages s' = incoming"
    using m by (simp add: slice_last_def MAX_MESSAGES_def)
  ultimately show ?thesis using s(2) w' unfolding incoming_def Let_def by auto
qed

theorem updateSession_messages_bounded_witness:
  "\<exists>s' w'. updateSession int 1800000 [115, 49]
              (no_updates\<lparr>u_messages := Some (demoMessages 23)\<rparr>) demoWorld = (Some s', w')
     \<and> length (messages s') \<le> 20
     \<and> length (messages s') = 20
     \<and> messages s' = drop 3 (demoMessages 23)"
proof -
  let ?u = "no_updates\<lparr>u_messages := Some (demoMessages 23)\<rparr>"
  have "fst (updateSession int 1800000 [115, 49] ?u demoWorld) \<noteq> None"
    by (simp add: updateSession_alive [where clk = int and s = demoSession]
          demoWorld_def demoSession_def Let_def)
  then obtain s' w' where r: "updateSession int 1800000 [115, 49] ?u demoWorld = (Some s', w')"
    by (cases "updateSession int 1800000 [115, 49] ?u demoWorld") auto
  have len: "length (demoMessages 23) = 23" by (simp add: demoMessages_def)
  from updateSession_messages_bounded [OF r] len
  have "length (messages s') \<le> 20 \<and> length (messages s') = 20
      \<and> messages s' = drop 3 (demoMessages 23)"
    by (simp add: no_updates_def Let_def)
  with r show ?thesis by blast
qed

lemma createSession_eq:
  "createSession clk ttl conv sid uid w =
    (sid, \<lparr> sessions = (sessions w)(sid \<mapsto>
            \<lparr> sessionId = sid, userId = uid, createdAt = clk (ticks w),
              lastActivityAt = clk (Suc (ticks w)), expiresAt = clk (Suc (Suc (ticks w))) + ttl,
              conversationsSession = conv, phase = IntentDetection, intent = initialIntent,
              usageData = None, roamingPlans = [], recommendation = None, messages = [],
              pendingRunState = None, pendingInterruptions = [] \<rparr>),
          ticks = Suc (Suc (Suc (ticks w))), runs = runs w \<rparr>)"
  by (simp add: createSession_def readClock_def)

text \<open>
  Claim C7, as the code has it. \<open>updateSession\<close> and \<open>createSession\<close> read the clock
  once for \<open>lastActivityAt\<close> and once more for \<open>expiresAt\<close>. After a successful update,
  and after creation, \<open>expiresAt\<close> is the second of these reads plus the timeout and
  \<open>lastActivityAt\<close> is the first, so \<open>expiresAt - lastActivityAt\<close> is the timeout plus
  the time between the two reads: the timeout exactly when both reads give the same
  instant, and at least the timeout when the clock did not go back.
\<close>

theorem expiry_is_read_time_plus_ttl:
  "(updateSession clk ttl sid u w = (Some s', w') \<longrightarrow>
      sessions w' sid = Some s' \<and>
      lastActivityAt s' = clk (ticks w + 1) \<and> expiresAt s' = clk (ticks w + 2) + ttl \<and>
      session_lifetime s' = ttl + (clk (ticks w + 2) - clk (ticks w + 1)) \<and>
      (clk (ticks w + 2) = clk (ticks w + 1) \<longrightarrow> session_lifetime s' = ttl) \<and>
      (clk (ticks w + 1) \<le> clk (ticks w + 2) \<longrightarrow> ttl \<le> session_lifetime s'))
 \<and> (\<exists>s0. sessions (snd (createSession clk ttl conv sid uid w)) sid = Some s0 \<and>
      lastActivityAt s0 = clk (ticks w + 1) \<and> expiresAt s0 = clk (ticks w + 2) + ttl \<and>
      session_lifetime s0 = ttl + (clk (ticks w + 2) - clk (ticks w + 1)) \<and>
      (clk (ticks w + 2) = clk (ticks w + 1) \<longrightarrow> session_lifetime s0 = ttl) \<and>
      (clk (ticks w + 1) \<le> clk (ticks w + 2) \<longrightarrow> ttl \<le> session_lifetime s0))"
proof (intro conjI impI)
  assume a: "updateSession clk ttl sid u w = (Some s', w')"
  from updateSession_SomeD[OF a] obtain s where
    s: "sid \<noteq> []" "sessions w sid = Some s" "clk (ticks w) \<le> expiresAt s" by blast
  from a have f: "lastActivityAt s' = clk (Suc (ticks w))"
      "expiresAt s' = clk (Suc (Suc (ticks w))) + ttl" "sessions w' sid = Some s'"
    unfolding updateSession_alive[where clk=clk, OF s] by (auto simp: Let_def)
  show "sessions w' sid = Some s'" by (rule f)
  show "lastActivityAt s' = clk (ticks w + 1)" using f by simp
  show "expiresAt s' = clk (ticks w + 2) + ttl" using f by simp
  show "session_lifetime s' = ttl + (clk (ticks w + 2) - clk (ticks w + 1))"
    using f by (simp add: session_lifetime_def)
  show "session_lifetime s' = ttl" if "clk (ticks w + 2) = clk (ticks w + 1)"
    using f that by (simp add: session_lifetime_def)
  show "ttl \<le> session_lifetime s'" if "clk (ticks w + 1) \<le> clk (ticks w + 2)"
    using f that by (simp add: session_lifetime_def)
next
  show "\<exists>s0. sessions (snd (createSession clk ttl conv sid uid w)) sid = Some s0 \<and>
      lastActivityAt s0 = clk (ticks w + 1) \<and> expiresAt s0 = clk (ticks w + 2) + ttl \<and>
      session_lifetime s0 = ttl + (clk (ticks w + 2) - clk (ticks w + 1)) \<and>
      (clk (ticks w + 2) = clk (ticks w + 1) \<longrightarrow> session_lifetime s0 = ttl) \<and>
      (clk (ticks w + 1) \<le> clk (ticks w + 2) \<longrightarrow> ttl \<le> session_lifetime s0)"
    by (simp add: createSession_eq session_lifetime_def)
qed

theorem expiry_is_read_time_plus_ttl_witness:
  "\<exists>s' w'. updateSession (\<lambda>n. 7) 1800000 [115, 49] no_updates demoWorld = (Some s', w')
     \<and> sessions w' [115, 49] = Some s'
     \<and> lastActivityAt s' = 7 \<and> expiresAt s' = 1800007 \<and> session_lifetime s' = 1800000"
proof -
  have "fst (updateSession (\<lambda>n. 7) 1800000 [115, 49] no_updates demoWorld) \<noteq> None"
    by (simp add: updateSession_alive [where clk = "\<lambda>n. 7" and s = demoSession]
          demoWorld_def demoSession_def Let_def)
  then obtain s' w' where
    r: "updateSession (\<lambda>n. 7) 1800000 [115, 49] no_updates demoWorld = (Some s', w')"
    by (cases "updateSession (\<lambda>n. 7) 1800000 [115, 49] no_updates demoWorld") auto
  from expiry_is_read_time_plus_ttl
    [of "\<lambda>n. 7" 1800000 "[115, 49]" no_updates demoWorld s' w' 0 "[117, 49]"] r
  have "sessions w' [115, 49] = Some s'
     \<and> lastActivityAt s' = 7 \<and> expiresAt s' = 1800007 \<and> session_lifetime s' = 1800000"
    by simp
  with r show ?thesis by blast
qed

text \<open>
  Claim C7 as stated fails: with a clock that advances by one millisecond at each read,
  an update of a fresh session leaves \<open>expiresAt - lastActivityAt\<close> one above the timeout.
\<close>

theorem expiry_exact_counterexample:
  "map_option session_lifetime
     (fst (updateSession int 1800000 [115] no_updates
        (snd (createSession int 1800000 0 [115] [117] emptyWorld)))) = Some 1800001"
  by (simp add: createSession_eq emptyWorld_def updateSession_alive session_lifetime_def
        spread_def no_updates_def MAX_MESSAGES_def Let_def)

lemma getSession_cases:
  obtains (absent) "getSession clk sid w = (None, w)"
  | (expired) s where "sid \<noteq> []" "sessions w sid = Some s" "expiresAt s < clk (ticks w)"
      "getSession clk sid w = (None, w\<lparr>ticks := Suc (ticks w), sessions := (sessions w)(sid := None)\<rparr>)"
  | (alive) s where "sid \<noteq> []" "sessions w sid = Some s" "clk (ticks w) \<le> expiresAt s"
      "getSession clk sid w = (Some s, w\<lparr>ticks := Suc (ticks w)\<rparr>)"
proof (cases "sid = [] \<or> sessions w sid = None")
  case True
  then have "getSession clk sid w = (None, w)" by (auto simp: getSession_def)
  then show ?thesis by (rule absent)
next
  case False
  then obtain s where s: "sid \<noteq> []" "sessions w sid = Some s" by auto
  show ?thesis
  proof (cases "clk (ticks w) \<le> expiresAt s")
    case True
    with s show ?thesis using alive getSession_alive by blast
  next
    case False
    then have "expiresAt s < clk (ticks w)" by simp
    with s show ?thesis using expired getSession_expired by blast
  qed
qed

lemma updateSession_stored:
  assumes "sessions w sid = Some s" "sessions (snd (updateSession clk ttl sid u w)) sid = Some s'"
  shows "s' = s \<or> fst (updateSession clk ttl sid u w) = Some s'"
proof (cases clk sid w rule: getSession_cases)
  case absent
  then have "updateSession clk ttl sid u w = (None, w)" by (simp add: updateSession_def)
  with assms show ?thesis by simp
next
  case (expired t)
  then have "updateSession clk ttl sid u w =
     (None, w\<lparr>ticks := Suc (ticks w), sessions := (sessions w)(sid := None)\<rparr>)"
    by (simp add: updateSession_def)
  with assms show ?thesis by simp
next
  case (alive t)
  from updateSession_alive[where clk=clk, OF alive(1-3)] assms(2)
  show ?thesis by (simp add: Let_def)
qed

lemma updateSession_phase:
  assumes "updateSession clk ttl sid (no_updates\<lparr>u_phase := Some p\<rparr>) w = (Some s', w')"
  shows "phase s' = p"
proof -
  from updateSession_SomeD[OF assms] obtain s where
    s: "sid \<noteq> []" "sessions w sid = Some s" "clk (ticks w) \<le> expiresAt s" by blast
  from assms show ?thesis
    unfolding updateSession_alive[where clk=clk, OF s]
    by (auto simp: Let_def spread_def no_updates_def)
qed

lemma transitionPhase_invalid:
  assumes "sid \<noteq> []" "sessions w sid = Some s" "clk (ticks w) \<le> expiresAt s"
    "newPhase \<notin> set (validTransitions (phase s))"
  shows "transitionPhase clk ttl sid newPhase w = (Some s, w\<lparr>ticks := Suc (ticks w)\<rparr>)"
  using assms by (simp add: transitionPhase_def getSession_alive)

lemma transitionPhase_valid:
  assumes "sid \<noteq> []" "sessions w sid = Some s" "clk (ticks w) \<le> expiresAt s"
    "newPhase \<in> set (validTransitions (phase s))"
  shows "transitionPhase clk ttl sid newPhase w =
           updateSession clk ttl sid (no_updates\<lparr>u_phase := Some newPhase\<rparr>)
             (w\<lparr>ticks := Suc (ticks w)\<rparr>)"
  using assms by (simp add: transitionPhase_def getSession_alive)

lemma transitionPhase_accepted:
  assumes "sid \<noteq> []" "sessions w sid = Some s" "clk (ticks w) \<le> expiresAt s"
    "clk (Suc (ticks w)) \<le> expiresAt s" "newPhase \<in> set (validTransitions (phase s))"
  shows "\<exists>s'. fst (transitionPhase clk ttl sid newPhase w) = Some s' \<and> phase s' = newPhase \<and>
           sessions (snd (transitionPhase clk ttl sid newPhase w)) sid = Some s'"
proof -
  let ?w1 = "w\<lparr>ticks := Suc (ticks w)\<rparr>"
  let ?u = "no_updates\<lparr>u_phase := Some newPhase\<rparr>"
  have eq: "transitionPhase clk ttl sid newPhase w = updateSession clk ttl sid ?u ?w1"
    by (rule transitionPhase_valid[where clk=clk, OF assms(1,2,3,5)])
  have s1: "sessions ?w1 sid = Some s" "clk (ticks ?w1) \<le> expiresAt s" using assms by simp_all
  obtain r w' where up: "updateSession clk ttl sid ?u ?w1 = (r, w')"
    by (cases "updateSession clk ttl sid ?u ?w1")
  from up updateSession_alive[where clk=clk and ttl=ttl and u="?u", OF assms(1) s1]
  obtain s' where r: "r = Some s'" "sessions w' sid = Some s'" by (auto simp: Let_def)
  from updateSession_phase[of clk ttl sid newPhase ?w1 s' w'] up r have "phase s' = newPhase" by simp
  with eq up r show ?thesis by simp
qed

lemma transitionPhase_stored_phase:
  assumes "sessions w sid = Some s"
    and "sessions (snd (transitionPhase clk ttl sid newPhase w)) sid = Some s'"
  shows "phase s' = phase s \<or> (phase s' = newPhase \<and> newPhase \<in> set (validTransitions (phase s)))"
proof (cases clk sid w rule: getSession_cases)
  case absent
  then have "transitionPhase clk ttl sid newPhase w = (None, w)" by (simp add: transitionPhase_def)
  with assms show ?thesis by simp
next
  case (expired t)
  then have "transitionPhase clk ttl sid newPhase w =
     (None, w\<lparr>ticks := Suc (ticks w), sessions := (sessions w)(sid := None)\<rparr>)"
    by (simp add: transitionPhase_def)
  with assms show ?thesis by simp
next
  case (alive t)
  with assms(1) have ts: "t = s" by simp
  show ?thesis
  proof (cases "newPhase \<in> set (validTransitions (phase s))")
    case False
    from transitionPhase_invalid[where clk=clk and ttl=ttl, OF alive(1) assms(1) _ False]
      alive(3) ts assms
    show ?thesis by simp
  next
    case True
    let ?w1 = "w\<lparr>ticks := Suc (ticks w)\<rparr>"
    let ?u = "no_updates\<lparr>u_phase := Some newPhase\<rparr>"
    from transitionPhase_valid[where clk=clk, OF alive(1) assms(1) _ True] alive(3) ts
    have eq: "transitionPhase clk ttl sid newPhase w = updateSession clk ttl sid ?u ?w1" by simp
    have "sessions ?w1 sid = Some s" using assms(1) by simp
    from updateSession_stored[OF this, of clk ttl ?u s'] assms(2) eq
    have "s' = s \<or> fst (updateSession clk ttl sid ?u ?w1) = Some s'" by simp
    then show ?thesis
    proof
      assume "s' = s" then show ?thesis by simp
    next
      assume "fst (updateSession clk ttl sid ?u ?w1) = Some s'"
      then have "updateSession clk ttl sid ?u ?w1 = (Some s', snd (updateSession clk ttl sid ?u ?w1))"
        by (metis prod.collapse)
      from updateSession_phase[OF this] True show ?thesis by simp
    qed
  qed
qed

lemma validTransitions_table:
  "q \<in> set (validTransitions p) \<longleftrightarrow>
     (p, q) \<in> {(IntentDetection, Confirmation), (Confirmation, Approval),
               (Confirmation, IntentDetection), (Approval, DataCollection),
               (Approval, Confirmation), (DataCollection, Recommendation)}"
  by (cases p) auto

text \<open>
  Claim C2. Whatever the target, the phase stored for the session after
  \<open>transitionPhase\<close> is the phase it had, or the target when the pair (current, target)
  is in the table. When the pair is not in the table (and the session is live), the call
  returns the session object it read, unchanged, and stores nothing. When the pair is in
  the table (and the session is live at both clock reads), the stored and returned
  session has the target phase. The function has no failing branch: it returns a session
  or \<open>null\<close>.
\<close>

theorem transitionPhase_follows_table:
  assumes "sessions w sid = Some s"
  shows "(\<forall>s'. sessions (snd (transitionPhase clk ttl sid newPhase w)) sid = Some s' \<longrightarrow>
            phase s' = phase s \<or>
            (phase s' = newPhase \<and>
             (phase s, newPhase) \<in> {(IntentDetection, Confirmation), (Confirmation, Approval),
               (Confirmation, IntentDetection), (Approval, DataCollection),
               (Approval, Confirmation), (DataCollection, Recommendation)}))
       \<and> (sid \<noteq> [] \<and> clk (ticks w) \<le> expiresAt s \<and>
          (phase s, newPhase) \<notin> {(IntentDetection, Confirmation), (Confirmation, Approval),
               (Confirmation, IntentDetection), (Approval, DataCollection),
               (Approval, Confirmation), (DataCollection, Recommendation)} \<longrightarrow>
            fst (transitionPhase clk ttl sid newPhase w) = Some s \<and>
            sessions (snd (transitionPhase clk ttl sid newPhase w)) = sessions w)
       \<and> (sid \<noteq> [] \<and> clk (ticks w) \<le> expiresAt s \<and> clk (Suc (ticks w)) \<le> expiresAt s \<and>
          (phase s, newPhase) \<in> {(IntentDetection, Confirmation), (Confirmation, Approval),
               (Confirmation, IntentDetection), (Approval, DataCollection),
               (Approval, Confirmation), (DataCollection, Recommendation)} \<longrightarrow>
            (\<exists>s'. fst (transitionPhase clk ttl sid newPhase w) = Some s' \<and> phase s' = newPhase \<and>
               sessions (snd (transitionPhase clk ttl sid newPhase w)) sid = Some s'))"
proof (intro conjI allI impI)
  fix s' assume "sessions (snd (transitionPhase clk ttl sid newPhase w)) sid = Some s'"
  from transitionPhase_stored_phase[OF assms this]
  show "phase s' = phase s \<or>
            (phase s' = newPhase \<and>
             (phase s, newPhase) \<in> {(IntentDetection, Confirmation), (Confirmation, Approval),
               (Confirmation, IntentDetection), (Approval, DataCollection),
               (Approval, Confirmation), (DataCollection, Recommendation)})"
    unfolding validTransitions_table .
next
  assume a: "sid \<noteq> [] \<and> clk (ticks w) \<le> expiresAt s \<and>
          (phase s, newPhase) \<notin> {(IntentDetection, Confirmation), (Confirmation, Approval),
               (Confirmation, IntentDetection), (Approval, DataCollection),
               (Approval, Confirmation), (DataCollection, Recommendation)}"
  then have "newPhase \<notin> set (validTransitions (phase s))" unfolding validTransitions_table by blast
  from transitionPhase_invalid[where clk=clk, OF _ assms _ this] a
  have e: "transitionPhase clk ttl sid newPhase w = (Some s, w\<lparr>ticks := Suc (ticks w)\<rparr>)" by blast
  show "fst (transitionPhase clk ttl sid newPhase w) = Some s" using e by simp
  show "sessions (snd (transitionPhase clk ttl sid newPhase w)) = sessions w" using e by simp
next
  assume a: "sid \<noteq> [] \<and> clk (ticks w) \<le> expiresAt s \<and> clk (Suc (ticks w)) \<le> expiresAt s \<and>
          (phase s, newPhase) \<in> {(IntentDetection, Confirmation), (Confirmation, Approval),
               (Confirmation, IntentDetection), (Approval, DataCollection),
               (Approval, Confirmation), (DataCollection, Recommendation)}"
  then have "newPhase \<in> set (validTransitions (phase s))" unfolding validTransitions_table by blast
  from transitionPhase_accepted[where clk=clk, OF _ assms _ _ this] a
  show "\<exists>s'. fst (transitionPhase clk ttl sid newPhase w) = Some s' \<and> phase s' = newPhase \<and>
               sessions (snd (transitionPhase clk ttl sid newPhase w)) sid = Some s'"
    by blast
qed


theorem transitionPhase_follows_table_witness:
  "sessions demoWorld [115, 49] = Some demoSession
   \<and> phase demoSession = IntentDetection
   \<and> fst (transitionPhase int 1800000 [115, 49] DataCollection demoWorld) = Some demoSession
   \<and> sessions (snd (transitionPhase int 1800000 [115, 49] DataCollection demoWorld)) =
       sessions demoWorld"
  using transitionPhase_follows_table
    [of demoWorld "[115, 49]" demoSession int 1800000 DataCollection]
  by (simp add: demoWorld_def demoSession_def)
section \<open>Properties of the approval predicates\<close>

lemma js_includes_sublist: "js_includes s k \<longleftrightarrow> sublist k s"
proof (induction s)
  case Nil
  show ?case by simp
next
  case (Cons c cs)
  show ?case unfolding js_includes.simps sublist_Cons_right Cons.IH ..
qed

lemma map_eq_fixed:
  assumes "map f b = k" "\<forall>c\<in>set k. \<forall>x. f x = c \<longrightarrow> x = c"
  shows "b = k"
  using assms
proof (induction b arbitrary: k)
  case Nil
  then show ?case by simp
next
  case (Cons x xs)
  then obtain c cs where k: "k = c # cs" "f x = c" "map f xs = cs" by auto
  with Cons.prems(2) have "x = c" by simp
  moreover have "xs = cs" using Cons.IH[OF k(3)] Cons.prems(2) k(1) by simp
  ultimately show ?case using k(1) by simp
qed

lemma sublist_map_fixed:
  assumes fixed: "\<forall>c\<in>set k. \<forall>x. f x = c \<longleftrightarrow> x = c"
  shows "sublist k (map f s) \<longleftrightarrow> sublist k s"
proof
  assume "sublist k (map f s)"
  then obtain ps ss where "map f s = ps @ k @ ss" unfolding sublist_def by blast
  then have "\<exists>us vs. s = us @ vs \<and> ps = map f us \<and> k @ ss = map f vs"
    by (simp add: map_eq_append_conv)
  then obtain a vs where a: "s = a @ vs" and vs: "map f vs = k @ ss" by auto
  from vs have "\<exists>us ws. vs = us @ ws \<and> k = map f us \<and> ss = map f ws"
    by (simp add: map_eq_append_conv)
  then obtain b c where c: "vs = b @ c" and b: "map f b = k" by auto
  from a c have s: "s = a @ b @ c" by simp
  have "\<forall>c\<in>set k. \<forall>x. f x = c \<longrightarrow> x = c" using fixed by simp
  from map_eq_fixed[OF b this] have "b = k" .
  with s show "sublist k s" unfolding sublist_def by blast
next
  assume "sublist k s"
  then obtain ps ss where s: "s = ps @ k @ ss" unfolding sublist_def by blast
  have "map f k = k" using fixed by (intro map_idI) simp
  with s have "map f s = map f ps @ k @ map f ss" by simp
  then show "sublist k (map f s)" unfolding sublist_def by blast
qed

lemma lower_fixes_cjk:
  assumes "122 < (c::nat)"
  shows "(if 65 \<le> x \<and> x \<le> 90 then x + 32 else x) = c \<longleftrightarrow> x = c"
  using assms by auto

lemma toLowerCase_trigger:
  assumes "k \<in> set trigger"
  shows "js_includes (toLowerCase s) k \<longleftrightarrow> js_includes s k"
proof -
  have "\<forall>c\<in>set k. 122 < c" using assms by (auto simp: trigger_def)
  then have "\<forall>c\<in>set k. \<forall>x. (if 65 \<le> x \<and> x \<le> 90 then x + 32 else x) = c \<longleftrightarrow> x = c"
    using lower_fixes_cjk by blast
  from sublist_map_fixed[OF this] show ?thesis
    unfolding js_includes_sublist toLowerCase_def .
qed

lemma includes_some_trigger:
  "includes_some (toLowerCase s) trigger \<longleftrightarrow> includes_some s trigger"
  unfolding includes_some_def list_ex_iff using toLowerCase_trigger by blast

text \<open>
  Claim C5, as the code behaves. \<open>query_plans\<close> requires approval only when
  \<open>intent.userApproved\<close> of the context's session is not true and, in addition, the input
  text contains one of the trigger words (the lower-casing of the input does not touch
  them), whereas the two sibling tools require approval whenever \<open>userApproved\<close> is not
  true. A call of \<open>query_plans\<close> whose input has no trigger word therefore goes through
  without approval, whatever \<open>userApproved\<close> is.
\<close>

theorem query_plans_approval_depends_on_input:
  "(needsApproval_query_plans ctx input \<longleftrightarrow>
      \<not> ctx_userApproved ctx \<and> includes_some (or_else input []) trigger)
   \<and> (needsApproval_get_usage ctx \<longleftrightarrow> \<not> ctx_userApproved ctx)
   \<and> (needsApproval_analyze_and_recommend ctx \<longleftrightarrow> \<not> ctx_userApproved ctx)"
  by (simp add: needsApproval_query_plans_def includes_some_trigger
        needsApproval_get_usage_def needsApproval_analyze_and_recommend_def)

text \<open>
  The input is the bare destination name U+65E5 U+672C, the documented input of the tool.
  The context is first one without a session (as \<open>run\<close> is called by the chat handler),
  then one whose session has \<open>userApproved = false\<close>: in both, \<open>userApproved\<close> is not
  true, the sibling tools require approval, and \<open>query_plans\<close> does not.
\<close>

theorem query_plans_approval_depends_on_input_witness:
  "\<not> ctx_userApproved (Some \<lparr> ctx_session = None \<rparr>)
   \<and> \<not> needsApproval_query_plans (Some \<lparr> ctx_session = None \<rparr>) (Some [26085, 26412])
   \<and> needsApproval_get_usage (Some \<lparr> ctx_session = None \<rparr>)
   \<and> needsApproval_analyze_and_recommend (Some \<lparr> ctx_session = None \<rparr>)
   \<and> \<not> userApproved (intent demoSession)
   \<and> \<not> needsApproval_query_plans (Some \<lparr> ctx_session = Some demoSession \<rparr>)
        (Some [26085, 26412])
   \<and> needsApproval_get_usage (Some \<lparr> ctx_session = Some demoSession \<rparr>)
   \<and> needsApproval_analyze_and_recommend (Some \<lparr> ctx_session = Some demoSession \<rparr>)"
proof -
  let ?input = "Some [26085, 26412]"
  let ?bare = "Some \<lparr> ctx_session = None \<rparr>"
  let ?demo = "Some \<lparr> ctx_session = Some demoSession \<rparr>"
  have a: "\<not> ctx_userApproved ?bare"
    by (simp add: ctx_userApproved_def)
  have b: "\<not> ctx_userApproved ?demo" "\<not> userApproved (intent demoSession)"
    by (simp_all add: ctx_userApproved_def demoSession_def initialIntent_def)
  have c: "\<not> includes_some (or_else ?input []) trigger"
    by (simp add: includes_some_def trigger_def or_else_def)
  show ?thesis
    using query_plans_approval_depends_on_input [of ?bare ?input]
      query_plans_approval_depends_on_input [of ?demo ?input] a b c
    by blast
qed

section \<open>Properties of the rate limiter\<close>

lemma rateLimit_fresh:
  assumes "store key = None \<or> (\<exists>r. store key = Some r \<and> resetAt r < now)"
  shows "rateLimit now key store =
     (Next, store(key \<mapsto> \<lparr> count = 1, resetAt = now + RATE_LIMIT_WINDOW_MS \<rparr>))"
  using assms by (auto simp: rateLimit_def RATE_LIMIT_REQUESTS_def)

lemma rateLimit_in_window:
  assumes "store key = Some r" "now \<le> resetAt r"
  shows "rateLimit now key store =
     (if RATE_LIMIT_REQUESTS < count r + 1
      then TooManyRequests (ceil_seconds (resetAt r - now)) else Next,
      store(key \<mapsto> r\<lparr>count := count r + 1\<rparr>))"
  using assms by (simp add: rateLimit_def)

lemma rateLimitAll_in_window:
  assumes "store key = Some r" "\<forall>t\<in>set ts. t \<le> resetAt r"
    "count r + length ts \<le> RATE_LIMIT_REQUESTS"
  shows "rateLimitAll key ts store =
     (replicate (length ts) Next, if ts = [] then store
        else store(key \<mapsto> r\<lparr>count := count r + length ts\<rparr>))"
  using assms
proof (induction ts arbitrary: store r)
  case Nil
  then show ?case by simp
next
  case (Cons t ts)
  let ?r1 = "r\<lparr>count := count r + 1\<rparr>"
  let ?s1 = "store(key \<mapsto> ?r1)"
  from Cons.prems have step: "rateLimit t key store = (Next, ?s1)"
    by (simp add: rateLimit_in_window)
  have "rateLimitAll key ts ?s1 =
     (replicate (length ts) Next, if ts = [] then ?s1
        else ?s1(key \<mapsto> ?r1\<lparr>count := count ?r1 + length ts\<rparr>))"
    using Cons.prems by (intro Cons.IH) auto
  with step show ?case by (auto simp: add.commute add.left_commute)
qed

lemma rateLimitAll_append:
  "rateLimitAll key (ts @ us) store =
     (fst (rateLimitAll key ts store) @ fst (rateLimitAll key us (snd (rateLimitAll key ts store))),
      snd (rateLimitAll key us (snd (rateLimitAll key ts store))))"
  by (induction ts arbitrary: store) (auto split: prod.splits)

lemma ceil_seconds_nonneg: "0 \<le> a \<Longrightarrow> 0 \<le> ceil_seconds a"
  unfolding ceil_seconds_def by linarith

lemma ceil_seconds_le: "a \<le> 1000 * k \<Longrightarrow> ceil_seconds a \<le> k"
  unfolding ceil_seconds_def by linarith

lemma ceil_seconds_pos_iff: "0 < ceil_seconds a \<longleftrightarrow> 0 < a"
  unfolding ceil_seconds_def by linarith

text \<open>
  Claim C6, as the code has it. A request that finds no record, or a record whose
  \<open>resetAt\<close> is past, starts a window: the record becomes count 1 (reset to 0, then
  incremented) with \<open>resetAt = now + 60000\<close>, and the request passes. After nine more
  requests inside the window, the eleventh inside the window is rejected with
  \<open>retryAfter = ceil((resetAt - now) / 1000)\<close>, which is at least 0 and at most 60, and
  is positive exactly when the request comes before \<open>resetAt\<close>. The first request after
  \<open>resetAt\<close> passes.
\<close>

theorem rate_limit_window:
  assumes fresh: "store key = None \<or> (\<exists>r. store key = Some r \<and> resetAt r < t0)"
    and len: "length ts = RATE_LIMIT_REQUESTS - 1"
    and inside: "\<forall>t\<in>set ts. t \<le> t0 + RATE_LIMIT_WINDOW_MS"
    and last: "t0 \<le> t'" "t' \<le> t0 + RATE_LIMIT_WINDOW_MS"
    and after: "t0 + RATE_LIMIT_WINDOW_MS < t''"
  shows "rateLimit t0 key store =
           (Next, store(key \<mapsto> \<lparr> count = 1, resetAt = t0 + RATE_LIMIT_WINDOW_MS \<rparr>))
       \<and> fst (rateLimitAll key (t0 # ts @ [t']) store) =
           replicate RATE_LIMIT_REQUESTS Next @
           [TooManyRequests (ceil_seconds (t0 + RATE_LIMIT_WINDOW_MS - t'))]
       \<and> 0 \<le> ceil_seconds (t0 + RATE_LIMIT_WINDOW_MS - t')
       \<and> ceil_seconds (t0 + RATE_LIMIT_WINDOW_MS - t') \<le> 60
       \<and> (0 < ceil_seconds (t0 + RATE_LIMIT_WINDOW_MS - t') \<longleftrightarrow> t' < t0 + RATE_LIMIT_WINDOW_MS)
       \<and> fst (rateLimit t'' key (snd (rateLimitAll key (t0 # ts @ [t']) store))) = Next"
proof -
  let ?W = RATE_LIMIT_WINDOW_MS
  let ?r1 = "\<lparr> count = 1, resetAt = t0 + ?W \<rparr>"
  let ?s1 = "store(key \<mapsto> ?r1)"
  let ?r10 = "?r1\<lparr>count := count ?r1 + length ts\<rparr>"
  let ?s10 = "if ts = [] then ?s1 else ?s1(key \<mapsto> ?r10)"
  have first: "rateLimit t0 key store = (Next, ?s1)" using fresh by (rule rateLimit_fresh)
  have mid: "rateLimitAll key ts ?s1 = (replicate (length ts) Next, ?s10)"
    using inside len by (intro rateLimitAll_in_window) (auto simp: RATE_LIMIT_REQUESTS_def)
  have s10: "?s10 key = Some ?r10" using len by (auto simp: RATE_LIMIT_REQUESTS_def)
  have c10: "count ?r10 = RATE_LIMIT_REQUESTS" using len by (simp add: RATE_LIMIT_REQUESTS_def)
  have lst: "rateLimit t' key ?s10 =
      (TooManyRequests (ceil_seconds (t0 + ?W - t')), ?s10(key \<mapsto> ?r10\<lparr>count := count ?r10 + 1\<rparr>))"
    using rateLimit_in_window[where store="?s10" and key=key, OF s10, of t'] last(2) c10 by simp
  have all: "rateLimitAll key (t0 # ts @ [t']) store =
      (replicate RATE_LIMIT_REQUESTS Next @ [TooManyRequests (ceil_seconds (t0 + ?W - t'))],
       ?s10(key \<mapsto> ?r10\<lparr>count := count ?r10 + 1\<rparr>))"
  proof -
    have "rateLimitAll key (ts @ [t']) ?s1 =
        (replicate (length ts) Next @ [TooManyRequests (ceil_seconds (t0 + ?W - t'))],
         ?s10(key \<mapsto> ?r10\<lparr>count := count ?r10 + 1\<rparr>))"
      unfolding rateLimitAll_append mid using lst by simp
    moreover have "Suc (length ts) = RATE_LIMIT_REQUESTS"
      using len by (simp add: RATE_LIMIT_REQUESTS_def)
    then have "replicate RATE_LIMIT_REQUESTS Next = Next # replicate (length ts) Next"
      by (metis replicate_Suc)
    ultimately show ?thesis using first by simp
  qed
  have roll: "fst (rateLimit t'' key (?s10(key \<mapsto> ?r10\<lparr>count := count ?r10 + 1\<rparr>))) = Next"
    using after by (subst rateLimit_fresh) auto
  have b1: "0 \<le> ceil_seconds (t0 + ?W - t')" using last by (intro ceil_seconds_nonneg) simp
  have b2: "ceil_seconds (t0 + ?W - t') \<le> 60"
    using last by (intro ceil_seconds_le) (simp add: RATE_LIMIT_WINDOW_MS_def)
  have b3: "0 < ceil_seconds (t0 + ?W - t') \<longleftrightarrow> t' < t0 + ?W"
    unfolding ceil_seconds_pos_iff by auto
  show ?thesis using first all roll b1 b2 b3 by simp
qed

theorem rate_limit_window_witness:
  "fst (rateLimitAll [115] (0 # [1, 2, 3, 4, 5, 6, 7, 8, 9] @ [30000]) Map.empty) =
     replicate RATE_LIMIT_REQUESTS Next @ [TooManyRequests 30]
   \<and> fst (rateLimit 60001 [115]
        (snd (rateLimitAll [115] (0 # [1, 2, 3, 4, 5, 6, 7, 8, 9] @ [30000]) Map.empty))) = Next"
  using rate_limit_window [of Map.empty "[115]" 0 "[1, 2, 3, 4, 5, 6, 7, 8, 9]" 30000 60001]
  by (simp del: rateLimitAll.simps
        add: RATE_LIMIT_REQUESTS_def RATE_LIMIT_WINDOW_MS_def ceil_seconds_def)

text \<open>
  Claim C6 as stated fails at the end of the window: the eleventh request, arriving at
  the very instant \<open>resetAt\<close>, is still inside the window and is rejected with
  \<open>retryAfter = 0\<close>, which is not positive.
\<close>

theorem retry_after_zero_counterexample:
  "fst (rateLimitAll [115] [0, 1, 2, 3, 4, 5, 6, 7, 8, 9, 60000] Map.empty) =
     replicate 10 Next @ [TooManyRequests 0]"
  by (simp add: rateLimit_def RATE_LIMIT_REQUESTS_def RATE_LIMIT_WINDOW_MS_def ceil_seconds_def
        numeral_eq_Suc)

section \<open>Properties of the chat handler\<close>

subsection \<open>Facts about the sample values\<close>

lemma demo_calm: "calm (\<lambda>n. 5) 1800000"
  by (simp add: calm_def)

lemma pendingWorld_held:
  "held (\<lambda>n. 5) [115, 49] [117, 49] (Some [115, 116]) [simplify demoItem] pendingWorld"
  by (simp add: held_def pendingWorld_def pendingSession_def demoSession_def)

lemma demoWorld_untouched: "all_untouched demoWorld"
  by (simp add: all_untouched_def untouched_def demoWorld_def demoSession_def)

lemma approval_message: "includes_some [22909] approvalKeywords"
  by (simp add: includes_some_def approvalKeywords_def)

lemma visible_message: "\<not> trims_to_empty [22909]"
  by (simp add: is_js_space_def)

subsection \<open>The payload fields\<close>

lemma all_untouched_ticks [simp]: "all_untouched (w\<lparr>ticks := n\<rparr>) = all_untouched w"
  by (simp add: all_untouched_def)

lemma all_untouched_runs [simp]: "all_untouched (w\<lparr>runs := n\<rparr>) = all_untouched w"
  by (simp add: all_untouched_def)

lemma all_untouched_delete:
  "all_untouched w \<Longrightarrow> all_untouched (w\<lparr>sessions := (sessions w)(k := None)\<rparr>)"
  by (simp add: all_untouched_def)

lemma all_untouched_store:
  "all_untouched w \<Longrightarrow> untouched s \<Longrightarrow> all_untouched (w\<lparr>sessions := (sessions w)(k \<mapsto> s)\<rparr>)"
  by (simp add: all_untouched_def)

lemma all_untouchedD: "all_untouched w \<Longrightarrow> sessions w k = Some s \<Longrightarrow> untouched s"
  by (auto simp: all_untouched_def)

lemma getSession_untouched:
  assumes "all_untouched w"
  shows "all_untouched (snd (getSession clk sid w))"
    and "fst (getSession clk sid w) = Some s \<Longrightarrow> untouched s"
proof -
  show "all_untouched (snd (getSession clk sid w))"
  proof (cases clk sid w rule: getSession_cases)
    case absent
    with assms show ?thesis by simp
  next
    case (expired t)
    with all_untouched_delete[OF assms, of sid] show ?thesis by (simp add: all_untouched_def)
  next
    case (alive t)
    with assms show ?thesis by simp
  qed
  show "untouched s" if "fst (getSession clk sid w) = Some s"
  proof (cases clk sid w rule: getSession_cases)
    case absent
    with that show ?thesis by simp
  next
    case (expired t)
    with that show ?thesis by simp
  next
    case (alive t)
    with that all_untouchedD[OF assms alive(2)] show ?thesis by simp
  qed
qed

lemma spread_untouched:
  "plain_updates u \<Longrightarrow> untouched s \<Longrightarrow>
   untouched ((spread s u)\<lparr>messages := m, conversationsSession := c,
                           lastActivityAt := a, expiresAt := e\<rparr>)"
  by (simp add: untouched_def plain_updates_def spread_def)

lemma updateSession_untouched:
  assumes "all_untouched w" "plain_updates u"
  shows "all_untouched (snd (updateSession clk ttl sid u w))"
    and "fst (updateSession clk ttl sid u w) = Some s' \<Longrightarrow> untouched s'"
proof -
  have "all_untouched (snd (updateSession clk ttl sid u w)) \<and>
        (fst (updateSession clk ttl sid u w) = Some s' \<longrightarrow> untouched s')"
  proof (cases clk sid w rule: getSession_cases)
    case absent
    then have "updateSession clk ttl sid u w = (None, w)" by (simp add: updateSession_def)
    with assms show ?thesis by simp
  next
    case (expired t)
    then have "updateSession clk ttl sid u w =
       (None, w\<lparr>ticks := Suc (ticks w), sessions := (sessions w)(sid := None)\<rparr>)"
      by (simp add: updateSession_def)
    with all_untouched_delete[OF assms(1), of sid] show ?thesis by (simp add: all_untouched_def)
  next
    case (alive t)
    have ut: "untouched t" by (rule all_untouchedD[OF assms(1) alive(2)])
    define m where "m = (let m = (case u_messages u of None \<Rightarrow> messages t | Some ms \<Rightarrow> ms)
                            in if length m > MAX_MESSAGES then slice_last MAX_MESSAGES m else m)"
    define t' where "t' = (spread t u)\<lparr>messages := m,
               conversationsSession := conversationsSession t,
               lastActivityAt := clk (Suc (ticks w)),
               expiresAt := clk (Suc (Suc (ticks w))) + ttl\<rparr>"
    have t': "untouched t'" unfolding t'_def by (rule spread_untouched[OF assms(2) ut])
    have "updateSession clk ttl sid u w =
        (Some t', \<lparr>sessions = (sessions w)(sid \<mapsto> t'), ticks = Suc (Suc (Suc (ticks w))),
                    runs = runs w\<rparr>)"
      unfolding updateSession_alive[where clk=clk, OF alive(1-3)] t'_def m_def Let_def ..
    with t' assms(1) show ?thesis by (auto simp: all_untouched_def)
  qed
  then show "all_untouched (snd (updateSession clk ttl sid u w))"
    and "fst (updateSession clk ttl sid u w) = Some s' \<Longrightarrow> untouched s'" by blast+
qed

lemma plain_no_updates [simp]:
  "plain_updates no_updates"
  "plain_updates (no_updates\<lparr>u_intent := i\<rparr>)"
  "plain_updates (no_updates\<lparr>u_phase := p\<rparr>)"
  "plain_updates (no_updates\<lparr>u_messages := m\<rparr>)"
  "plain_updates (no_updates\<lparr>u_pendingRunState := r, u_pendingInterruptions := is\<rparr>)"
  by (simp_all add: plain_updates_def no_updates_def)

lemma updateIntent_untouched:
  assumes "all_untouched w"
  shows "all_untouched (snd (updateIntent clk ttl sid iu w))"
proof (cases "getSession clk sid w")
  case (Pair r w1)
  have w1: "all_untouched w1" using getSession_untouched(1)[OF assms, of clk sid] Pair by simp
  show ?thesis
  proof (cases r)
    case None
    with Pair w1 show ?thesis by (simp add: updateIntent_def)
  next
    case (Some s)
    with Pair updateSession_untouched(1)[OF w1] show ?thesis by (simp add: updateIntent_def)
  qed
qed

lemma transitionPhase_untouched:
  assumes "all_untouched w"
  shows "all_untouched (snd (transitionPhase clk ttl sid p w))"
proof (cases "getSession clk sid w")
  case (Pair r w1)
  have w1: "all_untouched w1" using getSession_untouched(1)[OF assms, of clk sid] Pair by simp
  show ?thesis
  proof (cases r)
    case None
    with Pair w1 show ?thesis by (simp add: transitionPhase_def)
  next
    case (Some s)
    with Pair updateSession_untouched(1)[OF w1] w1 show ?thesis
      by (simp add: transitionPhase_def Let_def)
  qed
qed

lemma pending_untouched:
  assumes "all_untouched w"
  shows "all_untouched (snd (setPendingRunState clk ttl sid st ints w))"
    and "all_untouched (snd (clearPendingRunState clk ttl sid w))"
  using updateSession_untouched(1)[OF assms]
  by (simp_all add: setPendingRunState_def clearPendingRunState_def)

lemma approveLoop_sessions:
  "sessions (snd (approveLoop fuel env conv cur w)) = sessions w"
  by (induction fuel env conv cur w rule: approveLoop.induct)
     (auto simp: Let_def split: option.splits)

lemma approveLoop_untouched:
  "all_untouched w \<Longrightarrow> all_untouched (snd (approveLoop fuel env conv cur w))"
  using approveLoop_sessions[of fuel env conv cur w] by (simp add: all_untouched_def)

lemma runTurn_untouched:
  assumes "all_untouched w"
  shows "all_untouched (snd (runTurn fuel env clk ttl session message w))"
proof -
  have a: "all_untouched (snd (approveLoop fuel env conv r (w\<lparr>runs := Suc (runs w)\<rparr>)))" for conv r
    by (rule approveLoop_untouched) (simp add: assms)
  have b: "all_untouched (snd (setPendingRunState clk ttl sid st ints (w\<lparr>runs := Suc (runs w)\<rparr>)))"
    for sid st ints
    by (rule pending_untouched(1)) (simp add: assms)
  have c: "all_untouched (snd (clearPendingRunState clk ttl sid w))" for sid
    by (rule pending_untouched(2)[OF assms])
  have a': "all_untouched y"
    if "approveLoop fuel env conv r (w\<lparr>runs := Suc (runs w)\<rparr>) = (x, y)" for conv r x y
    using a[of conv r] that by simp
  show ?thesis
    unfolding runTurn_def Let_def
    using assms b c
    by (auto split: option.splits prod.splits outcome.splits dest: a')
qed

lemma analyzeAgentResponse_sessions:
  "sessions (snd (analyzeAgentResponse clk response session message w)) = sessions w"
  by (simp add: analyzeAgentResponse_def readClock_def Let_def)

lemma analyzeAgentResponse_untouched:
  "all_untouched w \<Longrightarrow> all_untouched (snd (analyzeAgentResponse clk response session message w))"
  using analyzeAgentResponse_sessions[of clk response session message w]
  by (simp add: all_untouched_def)

lemma finishTurn_untouched:
  assumes "all_untouched w"
  shows "all_untouched (snd (finishTurn clk ttl session message reply w))"
    and "fst (finishTurn clk ttl session message reply w) = Inr resp \<Longrightarrow>
         data_usage resp = None \<and> data_plans resp = None \<and> data_recommendation resp = None"
proof -
  obtain su w1 where an: "analyzeAgentResponse clk reply session message w = (su, w1)"
    by (cases "analyzeAgentResponse clk reply session message w")
  define w2 where "w2 = (case su_intent su of None \<Rightarrow> w1
                | Some iu \<Rightarrow> snd (updateIntent clk ttl (sessionId session) iu w1))"
  define w3 where "w3 = (case su_phase su of None \<Rightarrow> w2
                | Some p \<Rightarrow> snd (transitionPhase clk ttl (sessionId session) p w2))"
  define w4 where "w4 = w3\<lparr>ticks := Suc (ticks w3)\<rparr>"
  define u where "u = no_updates\<lparr>u_messages := Some (messages session @
      [\<lparr> role = Assistant, content = reply, timestamp = clk (ticks w3) \<rparr>])\<rparr>"
  have i1: "all_untouched w1" using analyzeAgentResponse_untouched[OF assms, of clk reply session message] an
    by simp
  have i2: "all_untouched w2" unfolding w2_def using i1 updateIntent_untouched[OF i1]
    by (simp split: option.splits)
  have i3: "all_untouched w3" unfolding w3_def using i2 transitionPhase_untouched[OF i2]
    by (simp split: option.splits)
  have i4: "all_untouched w4" unfolding w4_def using i3 by simp
  have pu: "plain_updates u" unfolding u_def by simp
  have eq: "finishTurn clk ttl session message reply w =
     (case fst (updateSession clk ttl (sessionId session) u w4) of
        None \<Rightarrow> Inl TypeError
      | Some us \<Rightarrow> Inr (buildResponse us reply),
      snd (updateSession clk ttl (sessionId session) u w4))"
    unfolding finishTurn_def an w2_def w3_def w4_def u_def readClock_def
    by (simp add: Let_def split: prod.splits option.splits)
  show "all_untouched (snd (finishTurn clk ttl session message reply w))"
    unfolding eq using updateSession_untouched(1)[OF i4 pu] by simp
  show "data_usage resp = None \<and> data_plans resp = None \<and> data_recommendation resp = None"
    if "fst (finishTurn clk ttl session message reply w) = Inr resp"
  proof -
    from that obtain us where us: "fst (updateSession clk ttl (sessionId session) u w4) = Some us"
      and r: "resp = buildResponse us reply"
      unfolding eq by (auto split: option.splits)
    from updateSession_untouched(2)[OF i4 pu us] have "untouched us" .
    with r show ?thesis by (simp add: buildResponse_def untouched_def)
  qed
qed

lemma createSession_untouched:
  "all_untouched w \<Longrightarrow> all_untouched (snd (createSession clk ttl conv sid uid w))"
  unfolding createSession_eq by (simp add: all_untouched_def untouched_def)

lemma acquireSession_untouched:
  assumes "all_untouched w"
  shows "all_untouched (snd (acquireSession env clk ttl uid arg w))"
    and "fst (acquireSession env clk ttl uid arg w) = Inr (key, s) \<Longrightarrow> untouched s"
proof -
  have g: "all_untouched (snd (getSession clk sid w))" for sid
    by (rule getSession_untouched(1)[OF assms])
  have gs: "fst (getSession clk sid w) = Some s \<Longrightarrow> untouched s" for sid s
    by (rule getSession_untouched(2)[OF assms])
  have c: "all_untouched (snd (createSession clk ttl conv sid uid w))" for conv sid
    by (rule createSession_untouched[OF assms])
  have cg: "all_untouched (snd (getSession clk sid' (snd (createSession clk ttl conv sid uid w))))"
    for conv sid sid'
    by (rule getSession_untouched(1)[OF c])
  have cgs: "fst (getSession clk sid' (snd (createSession clk ttl conv sid uid w))) = Some s
      \<Longrightarrow> untouched s" for conv sid sid' s
    by (rule getSession_untouched(2)[OF c])
  show "all_untouched (snd (acquireSession env clk ttl uid arg w))"
  proof (cases "truthy arg")
    case True
    then show ?thesis using g[of "the arg"]
      by (cases "getSession clk (the arg) w") (auto simp: acquireSession_def split: option.splits)
  next
    case False
    show ?thesis
    proof (cases "newConversation env")
      case None
      with False assms show ?thesis by (simp add: acquireSession_def)
    next
      case (Some p)
      obtain conv newId where p: "p = (conv, newId)" by (cases p)
      obtain sid' w1 where cr: "createSession clk ttl conv newId uid w = (sid', w1)"
        by (cases "createSession clk ttl conv newId uid w")
      from cg[of sid' conv newId] cr have "all_untouched (snd (getSession clk sid' w1))" by simp
      with False Some p cr show ?thesis
        by (cases "getSession clk sid' w1") (auto simp: acquireSession_def split: option.splits)
    qed
  qed
  show "untouched s" if "fst (acquireSession env clk ttl uid arg w) = Inr (key, s)"
  proof (cases "truthy arg")
    case True
    with that gs[of "the arg" s] show ?thesis
      by (cases "getSession clk (the arg) w")
         (auto simp: acquireSession_def split: option.splits if_splits)
  next
    case False
    show ?thesis
    proof (cases "newConversation env")
      case None
      with False that show ?thesis by (simp add: acquireSession_def)
    next
      case (Some p)
      obtain conv newId where p: "p = (conv, newId)" by (cases p)
      obtain sid' w1 where cr: "createSession clk ttl conv newId uid w = (sid', w1)"
        by (cases "createSession clk ttl conv newId uid w")
      from cgs[of sid' conv newId s] cr
      have "fst (getSession clk sid' w1) = Some s \<Longrightarrow> untouched s" by simp
      with False Some p cr that show ?thesis
        by (cases "getSession clk sid' w1") (auto simp: acquireSession_def split: option.splits)
    qed
  qed
qed

text \<open>
  Claim C10. \<open>createSession\<close> stores a session with \<open>usageData = null\<close>,
  \<open>roamingPlans = []\<close> and \<open>recommendation = null\<close>, and no path of the chat handler
  assigns these fields: if they are so in every stored session before a request, they are
  so in every stored session after it, whatever the request and whatever the agent layer
  does, and the \<open>data\<close> object of the response has no \<open>usage\<close>, \<open>plans\<close> and
  \<open>recommendation\<close>.
\<close>

theorem payload_fields_never_assigned:
  assumes inv: "all_untouched w"
    and run: "handleChatRequest fuel env clk ttl uid message arg w = Some (r, w')"
  shows "all_untouched w'
     \<and> (\<forall>resp. r = Inr resp \<longrightarrow>
           data_usage resp = None \<and> data_plans resp = None \<and> data_recommendation resp = None)
     \<and> all_untouched (snd (createSession clk ttl conv sid uid w))"
proof -
  have created: "all_untouched (snd (createSession clk ttl conv sid uid w))"
    by (rule createSession_untouched[OF inv])
  have main: "all_untouched w'
     \<and> (\<forall>resp. r = Inr resp \<longrightarrow>
           data_usage resp = None \<and> data_plans resp = None \<and> data_recommendation resp = None)"
  proof (cases "uid = [] \<or> message = [] \<or> trims_to_empty message")
    case True
    with run inv show ?thesis by (auto simp: handleChatRequest_def split: if_splits)
  next
    case False
    obtain a w1 where acq: "acquireSession env clk ttl uid arg w = (a, w1)"
      by (cases "acquireSession env clk ttl uid arg w")
    have w1: "all_untouched w1" using acquireSession_untouched(1)[OF inv, of env clk ttl uid arg] acq
      by simp
    show ?thesis
    proof (cases a)
      case (Inl e)
      with run False acq w1 show ?thesis by (auto simp: handleChatRequest_def)
    next
      case (Inr ks)
      obtain key s0 where ks: "ks = (key, s0)" by (cases ks)
      have s0: "untouched s0"
        using acquireSession_untouched(2)[OF inv, of env clk ttl uid arg key s0] acq Inr ks by simp
      define session where "session = s0\<lparr>messages := messages s0 @
          [\<lparr> role = User, content = message, timestamp = clk (ticks w1) \<rparr>]\<rparr>"
      define w3 where "w3 = w1\<lparr>ticks := Suc (ticks w1), sessions := (sessions w1)(key \<mapsto> session)\<rparr>"
      have "untouched session" using s0 by (simp add: session_def untouched_def)
      with w1 have w3: "all_untouched w3" by (simp add: w3_def all_untouched_def)
      have eq: "handleChatRequest fuel env clk ttl uid message arg w =
        (if \<not> agentAvailable env then Some (Inl AgentFailed, w3)
         else case runTurn fuel env clk ttl session message w3 of
                (Diverged, w4) \<Rightarrow> None
              | (Threw, w4) \<Rightarrow> Some (finishTurn clk ttl session message failureResponse w4)
              | (Returned assistantResponse, w4) \<Rightarrow>
                  Some (finishTurn clk ttl session message assistantResponse w4))"
        unfolding session_def w3_def using False acq Inr ks
        by (simp add: handleChatRequest_def readClock_def Let_def)
      show ?thesis
      proof (cases "agentAvailable env")
        case False
        with run eq w3 show ?thesis by auto
      next
        case True
        obtain out w4 where rt: "runTurn fuel env clk ttl session message w3 = (out, w4)"
          by (cases "runTurn fuel env clk ttl session message w3")
        have w4: "all_untouched w4"
          using runTurn_untouched[OF w3, of fuel env clk ttl session message] rt by simp
        from run eq True rt obtain reply where
          fin: "finishTurn clk ttl session message reply w4 = (r, w')"
          by (cases out) auto
        from finishTurn_untouched[OF w4, of clk ttl session message reply] fin
        show ?thesis by simp
      qed
    qed
  qed
  from main created show ?thesis by blast
qed

theorem payload_fields_never_assigned_witness:
  "all_untouched demoWorld
   \<and> (\<exists>resp w'. handleChatRequest 0 demoEnv (\<lambda>n. 5) 1800000 [117, 49] [104, 105]
                   (Some [115, 49]) demoWorld = Some (Inr resp, w')
        \<and> all_untouched w'
        \<and> data_usage resp = None \<and> data_plans resp = None \<and> data_recommendation resp = None)"
proof -
  have run: "\<exists>resp w'. handleChatRequest 0 demoEnv (\<lambda>n. 5) 1800000 [117, 49] [104, 105]
                   (Some [115, 49]) demoWorld = Some (Inr resp, w')"
    by (simp add: handleChatRequest_def acquireSession_def is_js_space_def readClock_def Let_def
        runTurn_def includes_some_def approvalKeywords_def confirmationKeywords_def or_else_def
        finishTurn_def analyzeAgentResponse_def detectCountry_def countryKeywords_def
        updateIntent_def transitionPhase_def updateSession_def getSession_def spread_def
        spreadIntent_def no_updates_def no_intent_updates_def buildResponse_def MAX_MESSAGES_def
        demoWorld_def demoSession_def initialIntent_def demoEnv_def)
  then obtain resp w' where r: "handleChatRequest 0 demoEnv (\<lambda>n. 5) 1800000 [117, 49] [104, 105]
                   (Some [115, 49]) demoWorld = Some (Inr resp, w')" by blast
  from payload_fields_never_assigned [OF demoWorld_untouched r, of 0 "[]"]
  have "all_untouched w'
        \<and> data_usage resp = None \<and> data_plans resp = None \<and> data_recommendation resp = None"
    by simp
  with r demoWorld_untouched show ?thesis by blast
qed

lemma neutral_no_updates [simp]:
  "neutral_updates no_updates"
  "neutral_updates (no_updates\<lparr>u_intent := i\<rparr>)"
  "neutral_updates (no_updates\<lparr>u_phase := p\<rparr>)"
  "neutral_updates (no_updates\<lparr>u_messages := m\<rparr>)"
  by (simp_all add: neutral_updates_def no_updates_def)

subsection \<open>A session that stays live during a turn\<close>

lemma held_ticks [simp]: "held clk sid uid prs pis (w\<lparr>ticks := n\<rparr>) = held clk sid uid prs pis w"
  by (simp add: held_def)

lemma held_runs [simp]: "held clk sid uid prs pis (w\<lparr>runs := n\<rparr>) = held clk sid uid prs pis w"
  by (simp add: held_def)

lemma held_getSession:
  assumes "held clk sid uid prs pis w"
  shows "\<exists>s. getSession clk sid w = (Some s, w\<lparr>ticks := Suc (ticks w)\<rparr>) \<and>
             sessions w sid = Some s \<and> sessionId s = sid \<and> userId s = uid \<and>
             pendingRunState s = prs \<and> pendingInterruptions s = pis"
proof -
  from assms obtain s where s: "sid \<noteq> []" "sessions w sid = Some s" "sessionId s = sid"
    "userId s = uid" "\<forall>n. clk n \<le> expiresAt s" "pendingRunState s = prs"
    "pendingInterruptions s = pis"
    unfolding held_def by blast
  from s(5) have "clk (ticks w) \<le> expiresAt s" by blast
  from getSession_alive[where clk=clk, OF s(1,2) this] s show ?thesis by blast
qed

lemma held_updateSession_gen:
  assumes c: "calm clk ttl" and h: "held clk sid uid prs pis w"
    and n: "u_sessionId u = None" "u_userId u = None"
  shows "\<exists>s' w'. updateSession clk ttl sid u w = (Some s', w') \<and> sessions w' sid = Some s' \<and>
            held clk sid uid
              (case u_pendingRunState u of None \<Rightarrow> prs | Some v \<Rightarrow> v)
              (case u_pendingInterruptions u of None \<Rightarrow> pis | Some v \<Rightarrow> v) w' \<and>
            runs w' = runs w"
proof -
  from h obtain s where s: "sid \<noteq> []" "sessions w sid = Some s" "sessionId s = sid"
    "userId s = uid" "\<forall>n. clk n \<le> expiresAt s" "pendingRunState s = prs"
    "pendingInterruptions s = pis"
    unfolding held_def by blast
  from s(5) have al: "clk (ticks w) \<le> expiresAt s" by blast
  define m where "m = (let m = (case u_messages u of None \<Rightarrow> messages s | Some ms \<Rightarrow> ms)
                            in if length m > MAX_MESSAGES then slice_last MAX_MESSAGES m else m)"
  define s' where "s' = (spread s u)\<lparr>messages := m,
               conversationsSession := conversationsSession s,
               lastActivityAt := clk (Suc (ticks w)),
               expiresAt := clk (Suc (Suc (ticks w))) + ttl\<rparr>"
  define w' where "w' = \<lparr>sessions = (sessions w)(sid \<mapsto> s'), ticks = Suc (Suc (Suc (ticks w))),
                    runs = runs w\<rparr>"
  have eq: "updateSession clk ttl sid u w = (Some s', w')"
    unfolding updateSession_alive[where clk=clk, OF s(1,2) al] s'_def m_def w'_def Let_def ..
  have f: "sessionId s' = sid" "userId s' = uid"
    "pendingRunState s' = (case u_pendingRunState u of None \<Rightarrow> prs | Some v \<Rightarrow> v)"
    "pendingInterruptions s' = (case u_pendingInterruptions u of None \<Rightarrow> pis | Some v \<Rightarrow> v)"
    using n s by (simp_all add: s'_def spread_def split: option.splits)
  have e: "\<forall>n. clk n \<le> expiresAt s'"
    using c by (simp add: s'_def calm_def)
  have "held clk sid uid (case u_pendingRunState u of None \<Rightarrow> prs | Some v \<Rightarrow> v)
              (case u_pendingInterruptions u of None \<Rightarrow> pis | Some v \<Rightarrow> v) w'"
    unfolding held_def using s(1) f e by (simp add: w'_def)
  with eq show ?thesis by (simp add: w'_def)
qed

lemma held_updateSession:
  assumes c: "calm clk ttl" and h: "held clk sid uid prs pis w" and n: "neutral_updates u"
  shows "\<exists>s' w'. updateSession clk ttl sid u w = (Some s', w') \<and> sessions w' sid = Some s' \<and>
            held clk sid uid prs pis w' \<and> runs w' = runs w"
  using held_updateSession_gen[OF c h, of u] n by (simp add: neutral_updates_def)

lemma held_updateIntent:
  assumes c: "calm clk ttl" and h: "held clk sid uid prs pis w"
  shows "held clk sid uid prs pis (snd (updateIntent clk ttl sid iu w))
       \<and> runs (snd (updateIntent clk ttl sid iu w)) = runs w"
proof -
  from held_getSession[OF h] obtain s where
    g: "getSession clk sid w = (Some s, w\<lparr>ticks := Suc (ticks w)\<rparr>)" by blast
  have h1: "held clk sid uid prs pis (w\<lparr>ticks := Suc (ticks w)\<rparr>)" using h by simp
  from held_updateSession[OF c h1, of "no_updates\<lparr>u_intent := Some (spreadIntent (intent s) iu)\<rparr>"]
  show ?thesis unfolding updateIntent_def g by auto
qed

lemma held_transitionPhase:
  assumes c: "calm clk ttl" and h: "held clk sid uid prs pis w"
  shows "held clk sid uid prs pis (snd (transitionPhase clk ttl sid p w))
       \<and> runs (snd (transitionPhase clk ttl sid p w)) = runs w"
proof -
  from held_getSession[OF h] obtain s where
    g: "getSession clk sid w = (Some s, w\<lparr>ticks := Suc (ticks w)\<rparr>)" by blast
  have h1: "held clk sid uid prs pis (w\<lparr>ticks := Suc (ticks w)\<rparr>)" using h by simp
  from held_updateSession[OF c h1, of "no_updates\<lparr>u_phase := Some p\<rparr>"] h1
  show ?thesis unfolding transitionPhase_def g by (auto simp: Let_def)
qed

lemma analyzeAgentResponse_world:
  "snd (analyzeAgentResponse clk response session message w) =
     w\<lparr>ticks := ticks (snd (analyzeAgentResponse clk response session message w))\<rparr>"
  by (simp add: analyzeAgentResponse_def readClock_def Let_def)

lemma held_finishTurn:
  assumes c: "calm clk ttl" and h: "held clk sid uid prs pis w" and sid: "sessionId session = sid"
  shows "\<exists>resp w'. finishTurn clk ttl session message reply w = (Inr resp, w') \<and>
           r_response resp = reply \<and> r_sessionId resp = sid \<and>
           held clk sid uid prs pis w' \<and> runs w' = runs w"
proof -
  obtain su w1 where an: "analyzeAgentResponse clk reply session message w = (su, w1)"
    by (cases "analyzeAgentResponse clk reply session message w")
  define w2 where "w2 = (case su_intent su of None \<Rightarrow> w1
                | Some iu \<Rightarrow> snd (updateIntent clk ttl (sessionId session) iu w1))"
  define w3 where "w3 = (case su_phase su of None \<Rightarrow> w2
                | Some p \<Rightarrow> snd (transitionPhase clk ttl (sessionId session) p w2))"
  define w4 where "w4 = w3\<lparr>ticks := Suc (ticks w3)\<rparr>"
  define u where "u = no_updates\<lparr>u_messages := Some (messages session @
      [\<lparr> role = Assistant, content = reply, timestamp = clk (ticks w3) \<rparr>])\<rparr>"
  from analyzeAgentResponse_world[of clk reply session message w] an
  have "w1 = w\<lparr>ticks := ticks w1\<rparr>" by simp
  then obtain n where "w1 = w\<lparr>ticks := n\<rparr>" ..
  with h have h1: "held clk sid uid prs pis w1" "runs w1 = runs w" by simp_all
  have h2: "held clk sid uid prs pis w2 \<and> runs w2 = runs w"
    unfolding w2_def sid using h1 held_updateIntent[OF c h1(1)] by (simp split: option.splits)
  then have h3: "held clk sid uid prs pis w3 \<and> runs w3 = runs w"
    unfolding w3_def sid using held_transitionPhase[OF c, of sid uid prs pis w2]
    by (simp split: option.splits)
  then have h4: "held clk sid uid prs pis w4" "runs w4 = runs w" by (simp_all add: w4_def)
  have eq: "finishTurn clk ttl session message reply w =
     (case fst (updateSession clk ttl sid u w4) of
        None \<Rightarrow> Inl TypeError
      | Some us \<Rightarrow> Inr (buildResponse us reply),
      snd (updateSession clk ttl sid u w4))"
    unfolding finishTurn_def an w2_def w3_def w4_def u_def readClock_def sid[symmetric]
    by (simp add: Let_def split: prod.splits option.splits)
  have nu: "neutral_updates u" by (simp add: u_def)
  from held_updateSession[OF c h4(1) nu] obtain s' w' where
    up: "updateSession clk ttl sid u w4 = (Some s', w')" "sessions w' sid = Some s'"
      "held clk sid uid prs pis w'" "runs w' = runs w4" by blast
  from up(2,3) have "sessionId s' = sid" by (auto simp: held_def)
  with up h4(2) show ?thesis unfolding eq by (simp add: buildResponse_def)
qed

lemma trims_to_empty_Nil: "\<not> trims_to_empty message \<Longrightarrow> message \<noteq> []"
  by auto

lemma held_acquireSession:
  assumes h: "held clk sid uid prs pis w"
  shows "\<exists>s. sessions w sid = Some s \<and> sessionId s = sid \<and>
           pendingRunState s = prs \<and> pendingInterruptions s = pis \<and>
           acquireSession env clk ttl uid (Some sid) w = (Inr (sid, s), w\<lparr>ticks := Suc (ticks w)\<rparr>)"
proof -
  from held_getSession[OF h] obtain s where
    g: "getSession clk sid w = (Some s, w\<lparr>ticks := Suc (ticks w)\<rparr>)"
      "sessions w sid = Some s" "sessionId s = sid" "userId s = uid"
      "pendingRunState s = prs" "pendingInterruptions s = pis" by blast
  from h have "sid \<noteq> []" by (simp add: held_def)
  with g show ?thesis by (simp add: acquireSession_def)
qed

lemma held_handleChatRequest:
  assumes h: "held clk sid uid prs pis w"
    and v: "uid \<noteq> []" "\<not> trims_to_empty message" "agentAvailable env"
  shows "\<exists>session w3. sessionId session = sid \<and> pendingRunState session = prs \<and>
           pendingInterruptions session = pis \<and>
           map_option conversationsSession (sessions w sid) = Some (conversationsSession session) \<and>
           held clk sid uid prs pis w3 \<and> runs w3 = runs w \<and>
           handleChatRequest fuel env clk ttl uid message (Some sid) w =
             (case runTurn fuel env clk ttl session message w3 of
                (Diverged, w4) \<Rightarrow> None
              | (Threw, w4) \<Rightarrow> Some (finishTurn clk ttl session message failureResponse w4)
              | (Returned assistantResponse, w4) \<Rightarrow>
                  Some (finishTurn clk ttl session message assistantResponse w4))"
proof -
  from held_acquireSession[OF h, of env ttl] obtain s where
    s: "sessions w sid = Some s" "sessionId s = sid" "pendingRunState s = prs"
      "pendingInterruptions s = pis"
      "acquireSession env clk ttl uid (Some sid) w = (Inr (sid, s), w\<lparr>ticks := Suc (ticks w)\<rparr>)"
    by blast
  define session where "session = s\<lparr>messages := messages s @
          [\<lparr> role = User, content = message, timestamp = clk (Suc (ticks w)) \<rparr>]\<rparr>"
  define w3 where "w3 = w\<lparr>ticks := Suc (Suc (ticks w)), sessions := (sessions w)(sid \<mapsto> session)\<rparr>"
  have eq: "handleChatRequest fuel env clk ttl uid message (Some sid) w =
             (case runTurn fuel env clk ttl session message w3 of
                (Diverged, w4) \<Rightarrow> None
              | (Threw, w4) \<Rightarrow> Some (finishTurn clk ttl session message failureResponse w4)
              | (Returned assistantResponse, w4) \<Rightarrow>
                  Some (finishTurn clk ttl session message assistantResponse w4))"
    unfolding session_def w3_def using v s(5) trims_to_empty_Nil[OF v(2)]
    by (simp add: handleChatRequest_def readClock_def Let_def
          cong: prod.case_cong outcome.case_cong)
  from h s(1) have "userId s = uid" "\<forall>n. clk n \<le> expiresAt s" "sid \<noteq> []"
    by (auto simp: held_def)
  with s have "held clk sid uid prs pis w3"
    by (simp add: held_def w3_def session_def)
  moreover have "runs w3 = runs w" by (simp add: w3_def)
  moreover have "sessionId session = sid" "pendingRunState session = prs"
    "pendingInterruptions session = pis"
    "map_option conversationsSession (sessions w sid) = Some (conversationsSession session)"
    using s by (simp_all add: session_def)
  ultimately show ?thesis using eq by blast
qed

lemma pending_reask_turn:
  assumes c: "calm clk ttl" and h: "held clk sid uid prs pis w" and p: "truthy prs"
    and v: "uid \<noteq> []" "\<not> trims_to_empty message" "agentAvailable env"
    and na: "\<not> includes_some message approvalKeywords"
  shows "\<exists>resp w'. handleChatRequest fuel env clk ttl uid message (Some sid) w = Some (Inr resp, w')
           \<and> r_response resp = pendingPrompt \<and> runs w' = runs w \<and> held clk sid uid prs pis w'"
proof -
  from held_handleChatRequest[OF h v, of fuel ttl] obtain session w3 where
    s: "sessionId session = sid" "pendingRunState session = prs"
      "held clk sid uid prs pis w3" "runs w3 = runs w"
    and eq: "handleChatRequest fuel env clk ttl uid message (Some sid) w =
             (case runTurn fuel env clk ttl session message w3 of
                (Diverged, w4) \<Rightarrow> None
              | (Threw, w4) \<Rightarrow> Some (finishTurn clk ttl session message failureResponse w4)
              | (Returned assistantResponse, w4) \<Rightarrow>
                  Some (finishTurn clk ttl session message assistantResponse w4))"
    by blast
  have rt: "runTurn fuel env clk ttl session message w3 = (Returned pendingPrompt, w3)"
    using p na s(2) by (simp add: runTurn_def)
  from held_finishTurn[OF c s(3) s(1), of message pendingPrompt] s(4)
  show ?thesis unfolding eq rt by auto
qed

text \<open>
  Claim C4. On a suspended session (a truthy \<open>pendingRunState\<close>), any number of
  requests whose messages are not approvals each reply with the same fixed prompt, call
  \<open>run\<close> not once (the count of runs is unchanged), and leave the pending run state and
  the pending interruptions of the stored session as they were.
\<close>

theorem pending_reask_idempotent:
  assumes c: "calm clk ttl" and h: "held clk sid uid prs pis w" and p: "truthy prs"
    and v: "uid \<noteq> []" "agentAvailable env"
    and ms: "\<forall>m\<in>set ms. \<not> trims_to_empty m \<and> \<not> includes_some m approvalKeywords"
  shows "\<exists>rs w'. chatTurns fuel env clk ttl uid sid ms w = Some (rs, w')
           \<and> length rs = length ms
           \<and> (\<forall>r\<in>set rs. \<exists>resp. r = Inr resp \<and> r_response resp = pendingPrompt)
           \<and> runs w' = runs w
           \<and> held clk sid uid prs pis w'"
  using h ms
proof (induction ms arbitrary: w)
  case Nil
  then show ?case by simp
next
  case (Cons m ms)
  from Cons.prems(2) have m: "\<not> trims_to_empty m" "\<not> includes_some m approvalKeywords" by simp_all
  from pending_reask_turn[OF c Cons.prems(1) p v(1) m(1) v(2) m(2), of fuel]
  obtain resp w1 where t: "handleChatRequest fuel env clk ttl uid m (Some sid) w = Some (Inr resp, w1)"
    "r_response resp = pendingPrompt" "runs w1 = runs w" "held clk sid uid prs pis w1" by blast
  from Cons.prems(2) have "\<forall>m\<in>set ms. \<not> trims_to_empty m \<and> \<not> includes_some m approvalKeywords"
    by simp
  from Cons.IH[OF t(4) this] obtain rs w' where
    r: "chatTurns fuel env clk ttl uid sid ms w1 = Some (rs, w')" "length rs = length ms"
      "\<forall>r\<in>set rs. \<exists>resp. r = Inr resp \<and> r_response resp = pendingPrompt"
      "runs w' = runs w1" "held clk sid uid prs pis w'" by blast
  from t r show ?case by simp
qed

theorem pending_reask_idempotent_witness:
  "calm (\<lambda>n. 5) 1800000
   \<and> held (\<lambda>n. 5) [115, 49] [117, 49] (Some [115, 116]) [simplify demoItem] pendingWorld
   \<and> (\<exists>rs w'. chatTurns 0 demoEnv (\<lambda>n. 5) 1800000 [117, 49] [115, 49]
                  [[104, 105], [110, 111]] pendingWorld = Some (rs, w')
        \<and> length rs = 2
        \<and> runs w' = runs pendingWorld
        \<and> held (\<lambda>n. 5) [115, 49] [117, 49] (Some [115, 116]) [simplify demoItem] w')"
proof -
  have ms: "\<forall>m\<in>set [[104, 105], [110, 111]].
      \<not> trims_to_empty m \<and> \<not> includes_some m approvalKeywords"
    by (simp add: is_js_space_def includes_some_def approvalKeywords_def)
  have av: "agentAvailable demoEnv" by (simp add: demoEnv_def)
  have uid: "[117, 49] \<noteq> ([] :: jstring)" by simp
  have p: "truthy (Some [115, 116])" by simp
  from pending_reask_idempotent [OF demo_calm pendingWorld_held p uid av ms, of 0]
  show ?thesis using demo_calm pendingWorld_held by auto
qed

lemma held_sessions_cong:
  "sessions w' = sessions w \<Longrightarrow> held clk sid uid prs pis w' = held clk sid uid prs pis w"
  by (simp add: held_def)

lemma held_stored:
  "held clk sid uid prs pis w \<Longrightarrow> sessions w sid = Some s \<Longrightarrow>
     pendingRunState s = prs \<and> pendingInterruptions s = pis"
  by (auto simp: held_def)

lemma held_updateSession_pending:
  assumes c: "calm clk ttl" and h: "held clk sid uid prs pis w"
    and u: "u = no_updates\<lparr>u_pendingRunState := Some p, u_pendingInterruptions := Some q\<rparr>"
  shows "held clk sid uid p q (snd (updateSession clk ttl sid u w))
       \<and> runs (snd (updateSession clk ttl sid u w)) = runs w"
proof -
  have n: "u_sessionId u = None" "u_userId u = None" "u_pendingRunState u = Some p"
    "u_pendingInterruptions u = Some q"
    by (simp_all add: u no_updates_def)
  from held_updateSession_gen[OF c h n(1,2)] show ?thesis unfolding n(3,4) by auto
qed

lemma held_clearPendingRunState:
  assumes "calm clk ttl" "held clk sid uid prs pis w"
  shows "held clk sid uid None [] (snd (clearPendingRunState clk ttl sid w))
       \<and> runs (snd (clearPendingRunState clk ttl sid w)) = runs w"
  unfolding clearPendingRunState_def by (rule held_updateSession_pending[OF assms refl])

lemma held_setPendingRunState:
  assumes "calm clk ttl" "held clk sid uid prs pis w"
  shows "held clk sid uid (Some st) ints (snd (setPendingRunState clk ttl sid st ints w))
       \<and> runs (snd (setPendingRunState clk ttl sid st ints w)) = runs w"
  unfolding setPendingRunState_def by (rule held_updateSession_pending[OF assms refl])

lemma runTurn_restore_fails:
  assumes "truthy (pendingRunState session)" "includes_some message approvalKeywords"
    "fromString env (the (pendingRunState session)) = None"
  shows "runTurn fuel env clk ttl session message w = (Threw, w)"
  using assms by (simp add: runTurn_def)

lemma runTurn_restore_succeeds:
  assumes "truthy (pendingRunState session)" "includes_some message approvalKeywords"
    "fromString env (the (pendingRunState session)) = Some rs"
  shows "runTurn fuel env clk ttl session message w =
     (case runState env (conversationsSession session)
             (approveOriginals env rs (pendingInterruptions session)) of
        None \<Rightarrow> Threw
      | Some resumed \<Rightarrow> Returned (or_else (finalOutput resumed) defaultResponse),
      (snd (clearPendingRunState clk ttl (sessionId session) w))
        \<lparr>runs := Suc (runs (snd (clearPendingRunState clk ttl (sessionId session) w)))\<rparr>)"
  using assms by (simp add: runTurn_def Let_def split: option.splits)

lemma runTurn_fresh_throws:
  assumes "\<not> truthy (pendingRunState session)"
    "runMessage env (conversationsSession session) message = None"
  shows "runTurn fuel env clk ttl session message w = (Threw, w\<lparr>runs := Suc (runs w)\<rparr>)"
  unfolding runTurn_def Let_def using assms by simp

lemma runTurn_fresh_final:
  assumes "\<not> truthy (pendingRunState session)"
    "runMessage env (conversationsSession session) message = Some res" "interruptions res = []"
  shows "runTurn fuel env clk ttl session message w =
           (Returned (or_else (finalOutput res) defaultResponse), w\<lparr>runs := Suc (runs w)\<rparr>)"
  unfolding runTurn_def Let_def using assms by simp

lemma runTurn_fresh_suspends:
  assumes "\<not> truthy (pendingRunState session)"
    "runMessage env (conversationsSession session) message = Some res" "interruptions res \<noteq> []"
    "\<not> includes_some message approvalKeywords"
  shows "runTurn fuel env clk ttl session message w =
           (Returned approvalPrompt,
            snd (setPendingRunState clk ttl (sessionId session) (stateToString env (state res))
                   (map simplify (interruptions res)) (w\<lparr>runs := Suc (runs w)\<rparr>)))"
  unfolding runTurn_def Let_def using assms by simp

lemma runTurn_fresh_approved:
  assumes "\<not> truthy (pendingRunState session)"
    "runMessage env (conversationsSession session) message = Some res" "interruptions res \<noteq> []"
    "includes_some message approvalKeywords"
  shows "snd (runTurn fuel env clk ttl session message w) =
           snd (approveLoop fuel env (conversationsSession session) res (w\<lparr>runs := Suc (runs w)\<rparr>))"
proof -
  obtain out w2 where lp:
    "approveLoop fuel env (conversationsSession session) res (w\<lparr>runs := Suc (runs w)\<rparr>) = (out, w2)"
    by (cases "approveLoop fuel env (conversationsSession session) res (w\<lparr>runs := Suc (runs w)\<rparr>)")
  show ?thesis
    unfolding runTurn_def Let_def using assms lp by (cases out) simp_all
qed

lemma runTurn_not_pending:
  assumes c: "calm clk ttl" and h: "held clk sid uid prs pis w"
    and np: "\<not> truthy (pendingRunState session)" and sid: "sessionId session = sid"
  shows "held clk sid uid prs pis (snd (runTurn fuel env clk ttl session message w))
     \<or> (\<not> includes_some message approvalKeywords \<and>
        (\<exists>res. runMessage env (conversationsSession session) message = Some res \<and>
           interruptions res \<noteq> [] \<and>
           held clk sid uid (Some (stateToString env (state res)))
             (map simplify (interruptions res))
             (snd (runTurn fuel env clk ttl session message w))))"
proof (cases "runMessage env (conversationsSession session) message")
  case None
  from runTurn_fresh_throws[OF np None] h show ?thesis by simp
next
  case (Some res)
  let ?w1 = "w\<lparr>runs := Suc (runs w)\<rparr>"
  have h1: "held clk sid uid prs pis ?w1" using h by simp
  show ?thesis
  proof (cases "interruptions res = []")
    case True
    from runTurn_fresh_final[OF np Some True] h show ?thesis by simp
  next
    case False
    show ?thesis
    proof (cases "includes_some message approvalKeywords")
      case True
      have "sessions (snd (runTurn fuel env clk ttl session message w)) = sessions w"
        unfolding runTurn_fresh_approved[OF np Some False True] approveLoop_sessions by simp
      from held_sessions_cong[OF this, of clk sid uid prs pis] h show ?thesis by simp
    next
      case na: False
      from held_setPendingRunState[OF c h1, of "stateToString env (state res)"
          "map simplify (interruptions res)"]
      have "held clk sid uid (Some (stateToString env (state res)))
             (map simplify (interruptions res))
             (snd (runTurn fuel env clk ttl session message w))"
        unfolding runTurn_fresh_suspends[OF np Some False na] sid by simp
      with Some False na show ?thesis by blast
    qed
  qed
qed

lemma runs_finishTurn_held:
  assumes c: "calm clk ttl" and h: "held clk sid uid prs pis w" and sid: "sessionId session = sid"
    and f: "finishTurn clk ttl session message reply w = (r, w')"
  shows "held clk sid uid prs pis w' \<and> (\<exists>resp. r = Inr resp \<and> r_response resp = reply)
       \<and> runs w' = runs w"
  using held_finishTurn[OF c h sid, of message reply] f by auto

subsection \<open>Resuming a suspended turn\<close>

lemma resume_restore_fails:
  assumes c: "calm clk ttl" and h: "held clk sid uid prs pis w"
    and v: "uid \<noteq> []" "\<not> trims_to_empty message" "agentAvailable env"
    and p: "truthy prs" "includes_some message approvalKeywords" "fromString env (the prs) = None"
  shows "\<exists>resp w'. handleChatRequest fuel env clk ttl uid message (Some sid) w = Some (Inr resp, w')
         \<and> r_response resp = failureResponse \<and> runs w' = runs w
         \<and> held clk sid uid prs pis w'"
proof -
  from held_handleChatRequest[OF h v, of fuel ttl] obtain session w3 where
    s: "sessionId session = sid" "pendingRunState session = prs"
      "held clk sid uid prs pis w3" "runs w3 = runs w"
    and eq: "handleChatRequest fuel env clk ttl uid message (Some sid) w =
             (case runTurn fuel env clk ttl session message w3 of
                (Diverged, w4) \<Rightarrow> None
              | (Threw, w4) \<Rightarrow> Some (finishTurn clk ttl session message failureResponse w4)
              | (Returned assistantResponse, w4) \<Rightarrow>
                  Some (finishTurn clk ttl session message assistantResponse w4))"
    by blast
  have rt: "runTurn fuel env clk ttl session message w3 = (Threw, w3)"
    using p s(2) by (intro runTurn_restore_fails) simp_all
  from held_finishTurn[OF c s(3) s(1), of message failureResponse] s(4)
  show ?thesis unfolding eq rt by auto
qed

lemma resume_restored:
  assumes c: "calm clk ttl" and h: "held clk sid uid prs pis w"
    and v: "uid \<noteq> []" "\<not> trims_to_empty message" "agentAvailable env"
    and p: "truthy prs" "includes_some message approvalKeywords" "fromString env (the prs) = Some rs"
  shows "\<exists>resp w' conv.
         handleChatRequest fuel env clk ttl uid message (Some sid) w = Some (Inr resp, w')
         \<and> runs w' = Suc (runs w) \<and> held clk sid uid None [] w'
         \<and> map_option conversationsSession (sessions w sid) = Some conv
         \<and> r_response resp =
             (case runState env conv (approveOriginals env rs pis) of
                None \<Rightarrow> failureResponse
              | Some resumed \<Rightarrow> or_else (finalOutput resumed) defaultResponse)"
proof -
  from held_handleChatRequest[OF h v, of fuel ttl] obtain session w3 where
    s: "sessionId session = sid" "pendingRunState session = prs"
      "pendingInterruptions session = pis"
      "map_option conversationsSession (sessions w sid) = Some (conversationsSession session)"
      "held clk sid uid prs pis w3" "runs w3 = runs w"
    and eq: "handleChatRequest fuel env clk ttl uid message (Some sid) w =
             (case runTurn fuel env clk ttl session message w3 of
                (Diverged, w4) \<Rightarrow> None
              | (Threw, w4) \<Rightarrow> Some (finishTurn clk ttl session message failureResponse w4)
              | (Returned assistantResponse, w4) \<Rightarrow>
                  Some (finishTurn clk ttl session message assistantResponse w4))"
    by blast
  define w1 where "w1 = snd (clearPendingRunState clk ttl sid w3)"
  define w2 where "w2 = w1\<lparr>runs := Suc (runs w1)\<rparr>"
  define out where "out = (case runState env (conversationsSession session)
           (approveOriginals env rs pis) of
      None \<Rightarrow> Threw
    | Some resumed \<Rightarrow> Returned (or_else (finalOutput resumed) defaultResponse))"
  define reply where "reply = (case runState env (conversationsSession session)
           (approveOriginals env rs pis) of
      None \<Rightarrow> failureResponse
    | Some resumed \<Rightarrow> or_else (finalOutput resumed) defaultResponse)"
  have rt: "runTurn fuel env clk ttl session message w3 = (out, w2)"
    using runTurn_restore_succeeds[of session message env rs fuel clk ttl w3] p s(1,2,3)
    by (simp add: out_def w2_def w1_def)
  from held_clearPendingRunState[OF c s(5)] have "held clk sid uid None [] w1" "runs w1 = runs w3"
    by (simp_all add: w1_def)
  then have h2: "held clk sid uid None [] w2" and r2: "runs w2 = Suc (runs w)"
    using s(6) by (simp_all add: w2_def)
  have eq2: "handleChatRequest fuel env clk ttl uid message (Some sid) w =
      Some (finishTurn clk ttl session message reply w2)"
    unfolding eq rt by (simp add: out_def reply_def split: option.splits)
  from held_finishTurn[OF c h2 s(1), of message reply] obtain resp w' where
    "finishTurn clk ttl session message reply w2 = (Inr resp, w')" "r_response resp = reply"
    "held clk sid uid None [] w'" "runs w' = runs w2" by blast
  with eq2 r2 s(4) show ?thesis by (auto simp: reply_def)
qed

lemma pending_set_only_by_suspension:
  assumes c: "calm clk ttl" and h: "held clk sid uid prs pis w"
    and v: "uid \<noteq> []" "\<not> trims_to_empty message" "agentAvailable env"
    and np: "\<not> truthy prs"
    and run: "handleChatRequest fuel env clk ttl uid message (Some sid) w = Some (r, w')"
    and st: "sessions w' sid = Some s'" and tp: "truthy (pendingRunState s')"
  shows "\<not> includes_some message approvalKeywords \<and>
         (\<exists>conv res. map_option conversationsSession (sessions w sid) = Some conv \<and>
            runMessage env conv message = Some res \<and> interruptions res \<noteq> [] \<and>
            pendingRunState s' = Some (stateToString env (state res)) \<and>
            pendingInterruptions s' = map simplify (interruptions res))"
proof -
  from held_handleChatRequest[OF h v, of fuel ttl] obtain session w3 where
    s: "sessionId session = sid" "pendingRunState session = prs"
      "pendingInterruptions session = pis"
      "map_option conversationsSession (sessions w sid) = Some (conversationsSession session)"
      "held clk sid uid prs pis w3" "runs w3 = runs w"
    and eq: "handleChatRequest fuel env clk ttl uid message (Some sid) w =
             (case runTurn fuel env clk ttl session message w3 of
                (Diverged, w4) \<Rightarrow> None
              | (Threw, w4) \<Rightarrow> Some (finishTurn clk ttl session message failureResponse w4)
              | (Returned assistantResponse, w4) \<Rightarrow>
                  Some (finishTurn clk ttl session message assistantResponse w4))"
    by blast
  obtain out w4 where rt: "runTurn fuel env clk ttl session message w3 = (out, w4)"
    by (cases "runTurn fuel env clk ttl session message w3")
  from run obtain reply where fin: "finishTurn clk ttl session message reply w4 = (r, w')"
    unfolding eq rt by (cases out) auto
  have np': "\<not> truthy (pendingRunState session)" using np s(2) by simp
  from runTurn_not_pending[OF c s(5) np' s(1), of fuel env message] rt
  consider (same) "held clk sid uid prs pis w4"
    | (suspended) res where "\<not> includes_some message approvalKeywords"
        "runMessage env (conversationsSession session) message = Some res"
        "interruptions res \<noteq> []"
        "held clk sid uid (Some (stateToString env (state res)))
           (map simplify (interruptions res)) w4"
    by auto
  then show ?thesis
  proof cases
    case same
    from runs_finishTurn_held[OF c same s(1) fin] have "held clk sid uid prs pis w'" by simp
    from held_stored[OF this st] np tp show ?thesis by simp
  next
    case (suspended res)
    from runs_finishTurn_held[OF c suspended(4) s(1) fin]
    have "held clk sid uid (Some (stateToString env (state res)))
           (map simplify (interruptions res)) w'" by simp
    from held_stored[OF this st] suspended(1-3) s(4) show ?thesis by blast
  qed
qed

text \<open>
  Claim C3, as the code has it. On a suspended session that receives an approval
  message: when restoring the run state fails, the reply is the apology, nothing is run
  and the pending state is left as it was; when restoring succeeds, the pending state is
  cleared before the resumed run is issued, so it is absent after the turn whether the
  resumed run returns or throws (the reply is the run's output or the apology). On a
  session with no pending state, a turn leaves a pending state behind only by a new
  suspension: a fresh run that reports interruptions, on a message that is not an
  approval.
\<close>

theorem pending_cleared_once_restored:
  assumes c: "calm clk ttl" and h: "held clk sid uid prs pis w"
    and v: "uid \<noteq> []" "\<not> trims_to_empty message" "agentAvailable env"
  shows
  "(truthy prs \<and> includes_some message approvalKeywords \<and> fromString env (the prs) = None \<longrightarrow>
      (\<exists>resp w'. handleChatRequest fuel env clk ttl uid message (Some sid) w = Some (Inr resp, w')
         \<and> r_response resp = failureResponse \<and> runs w' = runs w
         \<and> held clk sid uid prs pis w'))
 \<and> (\<forall>rs. truthy prs \<and> includes_some message approvalKeywords \<and>
        fromString env (the prs) = Some rs \<longrightarrow>
      (\<exists>resp w' conv.
         handleChatRequest fuel env clk ttl uid message (Some sid) w = Some (Inr resp, w')
         \<and> runs w' = Suc (runs w) \<and> held clk sid uid None [] w'
         \<and> map_option conversationsSession (sessions w sid) = Some conv
         \<and> r_response resp =
             (case runState env conv (approveOriginals env rs pis) of
                None \<Rightarrow> failureResponse
              | Some resumed \<Rightarrow> or_else (finalOutput resumed) defaultResponse)))
 \<and> (\<not> truthy prs \<longrightarrow>
      (\<forall>r w' s'. handleChatRequest fuel env clk ttl uid message (Some sid) w = Some (r, w')
           \<and> sessions w' sid = Some s' \<and> truthy (pendingRunState s') \<longrightarrow>
         \<not> includes_some message approvalKeywords \<and>
         (\<exists>conv res. map_option conversationsSession (sessions w sid) = Some conv \<and>
            runMessage env conv message = Some res \<and> interruptions res \<noteq> [] \<and>
            pendingRunState s' = Some (stateToString env (state res)) \<and>
            pendingInterruptions s' = map simplify (interruptions res))))"
  using resume_restore_fails[OF c h v, of fuel] resume_restored[OF c h v, of _ fuel]
    pending_set_only_by_suspension[OF c h v, of fuel]
  by blast

theorem pending_cleared_once_restored_witness:
  "calm (\<lambda>n. 5) 1800000
   \<and> held (\<lambda>n. 5) [115, 49] [117, 49] (Some [115, 116]) [simplify demoItem] pendingWorld
   \<and> (\<exists>resp w'. handleChatRequest 0 demoEnv (\<lambda>n. 5) 1800000 [117, 49] [22909]
                   (Some [115, 49]) pendingWorld = Some (Inr resp, w')
        \<and> runs w' = Suc (runs pendingWorld)
        \<and> held (\<lambda>n. 5) [115, 49] [117, 49] None [] w'
        \<and> r_response resp = [100, 111, 110, 101])"
proof -
  have av: "agentAvailable demoEnv" by (simp add: demoEnv_def)
  have uid: "[117, 49] \<noteq> ([] :: jstring)" by simp
  have pre: "truthy (Some [115, 116]) \<and> includes_some [22909] approvalKeywords \<and>
        fromString demoEnv (the (Some [115, 116])) = Some 0"
    using approval_message by (simp add: demoEnv_def)
  have conv: "map_option conversationsSession (sessions pendingWorld [115, 49]) = Some 0"
    by (simp add: pendingWorld_def pendingSession_def demoSession_def)
  have out: "(case runState demoEnv 0 (approveOriginals demoEnv 0 [simplify demoItem]) of
                None \<Rightarrow> failureResponse
              | Some resumed \<Rightarrow> or_else (finalOutput resumed) defaultResponse) =
             [100, 111, 110, 101]"
    by (simp add: demoEnv_def or_else_def)
  from pending_cleared_once_restored
    [OF demo_calm pendingWorld_held uid visible_message av, of 0] pre
  obtain resp w' conv' where
    "handleChatRequest 0 demoEnv (\<lambda>n. 5) 1800000 [117, 49] [22909]
                   (Some [115, 49]) pendingWorld = Some (Inr resp, w')"
    "runs w' = Suc (runs pendingWorld)" "held (\<lambda>n. 5) [115, 49] [117, 49] None [] w'"
    "map_option conversationsSession (sessions pendingWorld [115, 49]) = Some conv'"
    "r_response resp =
             (case runState demoEnv conv' (approveOriginals demoEnv 0 [simplify demoItem]) of
                None \<Rightarrow> failureResponse
              | Some resumed \<Rightarrow> or_else (finalOutput resumed) defaultResponse)"
    by blast
  with conv out demo_calm pendingWorld_held show ?thesis by auto
qed

text \<open>
  Claim C3 as stated fails: here the state is restored and the resumed run throws, so the
  turn replies with the apology, and the pending state of the stored session is cleared
  all the same.
\<close>

theorem resume_failure_clears_pending_counterexample:
  "truthy (pendingRunState pendingSession)
   \<and> sessions pendingWorld [115, 49] = Some pendingSession
   \<and> runState resumeFailsEnv 0 (approveOriginals resumeFailsEnv 0 [simplify demoItem]) = None
   \<and> (\<exists>resp w' s'. handleChatRequest 0 resumeFailsEnv (\<lambda>n. 5) 1800000 [117, 49] [22909]
                   (Some [115, 49]) pendingWorld = Some (Inr resp, w')
        \<and> r_response resp = failureResponse
        \<and> sessions w' [115, 49] = Some s'
        \<and> pendingRunState s' = None \<and> pendingInterruptions s' = [])"
proof -
  have av: "agentAvailable resumeFailsEnv" by (simp add: resumeFailsEnv_def demoEnv_def)
  have uid: "[117, 49] \<noteq> ([] :: jstring)" by simp
  have p: "truthy (Some [115, 116])" by simp
  have fs: "fromString resumeFailsEnv (the (Some [115, 116])) = Some 0"
    by (simp add: resumeFailsEnv_def demoEnv_def)
  have thrown: "runState resumeFailsEnv c r = None" for c r
    by (simp add: resumeFailsEnv_def)
  from resume_restored
    [OF demo_calm pendingWorld_held uid visible_message av p approval_message fs, of 0]
  obtain resp w' where r:
    "handleChatRequest 0 resumeFailsEnv (\<lambda>n. 5) 1800000 [117, 49] [22909]
                   (Some [115, 49]) pendingWorld = Some (Inr resp, w')"
    "held (\<lambda>n. 5) [115, 49] [117, 49] None [] w'" "r_response resp = failureResponse"
    unfolding thrown by auto
  from r(2) obtain s' where "sessions w' [115, 49] = Some s'" "pendingRunState s' = None"
    "pendingInterruptions s' = []" unfolding held_def by blast
  with r(1,3) thrown show ?thesis
    by (auto simp: pendingWorld_def pendingSession_def)
qed

subsection \<open>The confirmation turn\<close>

lemma staged_ticks [simp]: "staged clk sid uid ph it (w\<lparr>ticks := n\<rparr>) = staged clk sid uid ph it w"
  by (simp add: staged_def)

lemma staged_runs [simp]: "staged clk sid uid ph it (w\<lparr>runs := n\<rparr>) = staged clk sid uid ph it w"
  by (simp add: staged_def)

lemma staged_sessions_cong:
  "sessions w' = sessions w \<Longrightarrow> staged clk sid uid ph it w' = staged clk sid uid ph it w"
  by (simp add: staged_def)

lemma staged_getSession:
  assumes "staged clk sid uid ph it w"
  shows "\<exists>s. getSession clk sid w = (Some s, w\<lparr>ticks := Suc (ticks w)\<rparr>) \<and>
             sessions w sid = Some s \<and> sessionId s = sid \<and> userId s = uid \<and>
             phase s = ph \<and> intent s = it"
proof -
  from assms obtain s where s: "sid \<noteq> []" "sessions w sid = Some s" "sessionId s = sid"
    "userId s = uid" "\<forall>n. clk n \<le> expiresAt s" "phase s = ph" "intent s = it"
    unfolding staged_def by blast
  from s(5) have "clk (ticks w) \<le> expiresAt s" by blast
  from getSession_alive[where clk=clk, OF s(1,2) this] s show ?thesis by blast
qed

lemma staged_updateSession:
  assumes c: "calm clk ttl" and h: "staged clk sid uid ph it w"
    and n: "u_sessionId u = None" "u_userId u = None"
  shows "\<exists>s' w'. updateSession clk ttl sid u w = (Some s', w') \<and> sessions w' sid = Some s' \<and>
            phase s' = (case u_phase u of None \<Rightarrow> ph | Some v \<Rightarrow> v) \<and>
            intent s' = (case u_intent u of None \<Rightarrow> it | Some v \<Rightarrow> v) \<and>
            staged clk sid uid
              (case u_phase u of None \<Rightarrow> ph | Some v \<Rightarrow> v)
              (case u_intent u of None \<Rightarrow> it | Some v \<Rightarrow> v) w'"
proof -
  from h obtain s where s: "sid \<noteq> []" "sessions w sid = Some s" "sessionId s = sid"
    "userId s = uid" "\<forall>n. clk n \<le> expiresAt s" "phase s = ph" "intent s = it"
    unfolding staged_def by blast
  from s(5) have al: "clk (ticks w) \<le> expiresAt s" by blast
  define m where "m = (let m = (case u_messages u of None \<Rightarrow> messages s | Some ms \<Rightarrow> ms)
                            in if length m > MAX_MESSAGES then slice_last MAX_MESSAGES m else m)"
  define s' where "s' = (spread s u)\<lparr>messages := m,
               conversationsSession := conversationsSession s,
               lastActivityAt := clk (Suc (ticks w)),
               expiresAt := clk (Suc (Suc (ticks w))) + ttl\<rparr>"
  define w' where "w' = \<lparr>sessions = (sessions w)(sid \<mapsto> s'), ticks = Suc (Suc (Suc (ticks w))),
                    runs = runs w\<rparr>"
  have eq: "updateSession clk ttl sid u w = (Some s', w')"
    unfolding updateSession_alive[where clk=clk, OF s(1,2) al] s'_def m_def w'_def Let_def ..
  have f: "sessionId s' = sid" "userId s' = uid"
    "phase s' = (case u_phase u of None \<Rightarrow> ph | Some v \<Rightarrow> v)"
    "intent s' = (case u_intent u of None \<Rightarrow> it | Some v \<Rightarrow> v)"
    using n s by (simp_all add: s'_def spread_def split: option.splits)
  have e: "\<forall>n. clk n \<le> expiresAt s'"
    using c by (simp add: s'_def calm_def)
  have "staged clk sid uid (case u_phase u of None \<Rightarrow> ph | Some v \<Rightarrow> v)
              (case u_intent u of None \<Rightarrow> it | Some v \<Rightarrow> v) w'"
    unfolding staged_def using s(1) f e by (simp add: w'_def)
  with eq f show ?thesis by (simp add: w'_def)
qed

lemma staged_pending_update:
  assumes c: "calm clk ttl" and h: "staged clk sid uid ph it w"
    and u: "u = no_updates\<lparr>u_pendingRunState := p, u_pendingInterruptions := q\<rparr>"
  shows "staged clk sid uid ph it (snd (updateSession clk ttl sid u w))"
proof -
  have n: "u_sessionId u = None" "u_userId u = None" "u_phase u = None" "u_intent u = None"
    by (simp_all add: u no_updates_def)
  from staged_updateSession[OF c h n(1,2)] show ?thesis unfolding n(3,4) by auto
qed

lemma staged_runTurn:
  assumes c: "calm clk ttl" and h: "staged clk sid uid ph it w" and sid: "sessionId session = sid"
  shows "staged clk sid uid ph it (snd (runTurn fuel env clk ttl session message w))"
proof -
  have cl: "staged clk sid uid ph it (snd (clearPendingRunState clk ttl sid w))"
    unfolding clearPendingRunState_def by (rule staged_pending_update[OF c h refl])
  have se: "staged clk sid uid ph it
      (snd (setPendingRunState clk ttl sid st ints (w\<lparr>runs := Suc (runs w)\<rparr>)))" for st ints
    unfolding setPendingRunState_def
    by (rule staged_pending_update[OF c _ refl]) (simp add: h)
  have lp: "staged clk sid uid ph it y"
    if "approveLoop fuel env conv r (w\<lparr>runs := Suc (runs w)\<rparr>) = (x, y)" for conv r x y
  proof -
    from approveLoop_sessions[of fuel env conv r "w\<lparr>runs := Suc (runs w)\<rparr>"] that
    have "sessions y = sessions w" by simp
    from staged_sessions_cong[OF this, of clk sid uid ph it] h show ?thesis by simp
  qed
  show ?thesis
    unfolding runTurn_def Let_def sid
    using h cl se
    by (auto split: option.splits prod.splits outcome.splits dest: lp)
qed

lemma handleChatRequest_live:
  assumes st: "sid \<noteq> []" "sessions w sid = Some s" "userId s = uid" "clk (ticks w) \<le> expiresAt s"
    and v: "uid \<noteq> []" "\<not> trims_to_empty message" "agentAvailable env"
    and session: "session = s\<lparr>messages := messages s @
          [\<lparr> role = User, content = message, timestamp = clk (Suc (ticks w)) \<rparr>]\<rparr>"
    and w3: "w3 = w\<lparr>ticks := Suc (Suc (ticks w)), sessions := (sessions w)(sid \<mapsto> session)\<rparr>"
  shows "handleChatRequest fuel env clk ttl uid message (Some sid) w =
             (case runTurn fuel env clk ttl session message w3 of
                (Diverged, w4) \<Rightarrow> None
              | (Threw, w4) \<Rightarrow> Some (finishTurn clk ttl session message failureResponse w4)
              | (Returned assistantResponse, w4) \<Rightarrow>
                  Some (finishTurn clk ttl session message assistantResponse w4))"
proof -
  have acq: "acquireSession env clk ttl uid (Some sid) w = (Inr (sid, s), w\<lparr>ticks := Suc (ticks w)\<rparr>)"
    using st by (simp add: acquireSession_def getSession_alive)
  show ?thesis
    unfolding session w3 using v acq trims_to_empty_Nil[OF v(2)]
    by (simp add: handleChatRequest_def readClock_def Let_def
          cong: prod.case_cong outcome.case_cong)
qed

lemma confirmation_analyze:
  assumes "phase session = Confirmation" "includes_some message confirmationKeywords"
  shows "analyzeAgentResponse clk reply session message w =
    (\<lparr> su_intent = Some (no_intent_updates\<lparr>iu_confirmed := Some True,
                        iu_confirmedAt := Some (Some (clk (ticks w))),
                        iu_userApproved := Some True\<rparr>),
       su_phase = Some DataCollection \<rparr>, w\<lparr>ticks := Suc (ticks w)\<rparr>)"
  using assms by (simp add: analyzeAgentResponse_def readClock_def Let_def)

lemma staged_updateIntent:
  assumes c: "calm clk ttl" and h: "staged clk sid uid ph it w"
  shows "staged clk sid uid ph (spreadIntent it iu) (snd (updateIntent clk ttl sid iu w))"
proof -
  from staged_getSession[OF h] obtain s where
    g: "getSession clk sid w = (Some s, w\<lparr>ticks := Suc (ticks w)\<rparr>)" "intent s = it" by blast
  have h1: "staged clk sid uid ph it (w\<lparr>ticks := Suc (ticks w)\<rparr>)" using h by simp
  let ?u = "no_updates\<lparr>u_intent := Some (spreadIntent it iu)\<rparr>"
  have n: "u_sessionId ?u = None" "u_userId ?u = None" "u_phase ?u = None"
    "u_intent ?u = Some (spreadIntent it iu)"
    by (simp_all add: no_updates_def)
  from staged_updateSession[OF c h1 n(1,2)]
  have "staged clk sid uid ph (spreadIntent it iu)
          (snd (updateSession clk ttl sid ?u (w\<lparr>ticks := Suc (ticks w)\<rparr>)))"
    unfolding n(3,4) by auto
  then show ?thesis unfolding updateIntent_def g(1) using g(2) by simp
qed

lemma staged_transition_rejected:
  assumes h: "staged clk sid uid ph it w" and inv: "p \<notin> set (validTransitions ph)"
  shows "staged clk sid uid ph it (snd (transitionPhase clk ttl sid p w))"
proof -
  from staged_getSession[OF h] obtain s where
    g: "getSession clk sid w = (Some s, w\<lparr>ticks := Suc (ticks w)\<rparr>)" "phase s = ph" by blast
  with inv have "transitionPhase clk ttl sid p w = (Some s, w\<lparr>ticks := Suc (ticks w)\<rparr>)"
    by (simp add: transitionPhase_def)
  with h show ?thesis by simp
qed

lemma confirmation_finishTurn:
  assumes c: "calm clk ttl" and h: "staged clk sid uid Confirmation it w"
    and sid: "sessionId session = sid" and ph: "phase session = Confirmation"
    and kw: "includes_some message confirmationKeywords"
  shows "\<exists>resp w' s'. finishTurn clk ttl session message reply w = (Inr resp, w') \<and>
           sessions w' sid = Some s' \<and> confirmed (intent s') \<and> userApproved (intent s') \<and>
           phase s' = Confirmation \<and> r_phase resp = Confirmation \<and> r_response resp = reply"
proof -
  define iu where "iu = no_intent_updates\<lparr>iu_confirmed := Some True,
                        iu_confirmedAt := Some (Some (clk (ticks w))),
                        iu_userApproved := Some True\<rparr>"
  define it' where "it' = spreadIntent it iu"
  define w1 where "w1 = w\<lparr>ticks := Suc (ticks w)\<rparr>"
  define w2 where "w2 = snd (updateIntent clk ttl sid iu w1)"
  define w3 where "w3 = snd (transitionPhase clk ttl sid DataCollection w2)"
  define w4 where "w4 = w3\<lparr>ticks := Suc (ticks w3)\<rparr>"
  define u where "u = no_updates\<lparr>u_messages := Some (messages session @
      [\<lparr> role = Assistant, content = reply, timestamp = clk (ticks w3) \<rparr>])\<rparr>"
  have flags: "confirmed it'" "userApproved it'"
    by (simp_all add: it'_def iu_def spreadIntent_def no_intent_updates_def)
  have h1: "staged clk sid uid Confirmation it w1" using h by (simp add: w1_def)
  have h2: "staged clk sid uid Confirmation it' w2"
    unfolding w2_def it'_def by (rule staged_updateIntent[OF c h1])
  have h3: "staged clk sid uid Confirmation it' w3"
    unfolding w3_def by (rule staged_transition_rejected[OF h2]) simp
  have h4: "staged clk sid uid Confirmation it' w4" using h3 by (simp add: w4_def)
  have eq: "finishTurn clk ttl session message reply w =
     (case fst (updateSession clk ttl sid u w4) of
        None \<Rightarrow> Inl TypeError
      | Some us \<Rightarrow> Inr (buildResponse us reply),
      snd (updateSession clk ttl sid u w4))"
    unfolding finishTurn_def confirmation_analyze[OF ph kw] w1_def w2_def w3_def w4_def u_def
      iu_def readClock_def sid[symmetric]
    by (simp add: Let_def split: prod.splits option.splits)
  have n: "u_sessionId u = None" "u_userId u = None" "u_phase u = None" "u_intent u = None"
    by (simp_all add: u_def no_updates_def)
  from staged_updateSession[OF c h4 n(1,2)] obtain s' w' where
    up: "updateSession clk ttl sid u w4 = (Some s', w')" "sessions w' sid = Some s'"
      "phase s' = Confirmation" "intent s' = it'"
    unfolding n(3,4) by auto
  with flags show ?thesis unfolding eq by (simp add: buildResponse_def)
qed

text \<open>
  Claim C1, as the code behaves. For every live session in phase \<open>confirmation\<close> and
  every message with a confirmation keyword, a turn that returns sets
  \<open>intent.confirmed\<close> and \<open>intent.userApproved\<close> in the stored session and then asks
  \<open>transitionPhase\<close> for \<open>data-collection\<close>, which the table does not allow from
  \<open>confirmation\<close>: the phase of the stored session and of the response is still
  \<open>confirmation\<close>.
\<close>

theorem confirmation_never_reaches_data_collection:
  assumes c: "calm clk ttl"
    and st: "sid \<noteq> []" "sessions w sid = Some s" "sessionId s = sid" "userId s = uid"
      "\<forall>n. clk n \<le> expiresAt s"
    and ph: "phase s = Confirmation"
    and v: "uid \<noteq> []" "\<not> trims_to_empty message" "agentAvailable env"
    and kw: "includes_some message confirmationKeywords"
    and run: "handleChatRequest fuel env clk ttl uid message (Some sid) w = Some (r, w')"
  shows "\<exists>resp s'. r = Inr resp \<and> sessions w' sid = Some s' \<and>
           confirmed (intent s') \<and> userApproved (intent s') \<and>
           phase s' = Confirmation \<and> r_phase resp = Confirmation"
proof -
  define session where "session = s\<lparr>messages := messages s @
          [\<lparr> role = User, content = message, timestamp = clk (Suc (ticks w)) \<rparr>]\<rparr>"
  define w3 where "w3 = w\<lparr>ticks := Suc (Suc (ticks w)), sessions := (sessions w)(sid \<mapsto> session)\<rparr>"
  from st(5) have al: "clk (ticks w) \<le> expiresAt s" by blast
  note eq = handleChatRequest_live[OF st(1,2,4) al v session_def w3_def, of fuel ttl]
  have sp: "sessionId session = sid" "phase session = Confirmation"
    using st ph by (simp_all add: session_def)
  have h3: "staged clk sid uid Confirmation (intent s) w3"
    using st ph by (simp add: staged_def w3_def session_def)
  obtain out w4 where rt: "runTurn fuel env clk ttl session message w3 = (out, w4)"
    by (cases "runTurn fuel env clk ttl session message w3")
  from staged_runTurn[OF c h3 sp(1), of fuel env message] rt
  have h4: "staged clk sid uid Confirmation (intent s) w4" by simp
  from run obtain reply where fin: "finishTurn clk ttl session message reply w4 = (r, w')"
    unfolding eq rt by (cases out) auto
  from confirmation_finishTurn[OF c h4 sp kw, of reply] fin show ?thesis by auto
qed

text \<open>
  The session is in phase \<open>confirmation\<close> and the message is the confirmation keyword
  U+597D.
\<close>

theorem confirmation_never_reaches_data_collection_witness:
  "calm (\<lambda>n. 5) 1800000
   \<and> phase confirmationSession = Confirmation
   \<and> sessions confirmationWorld [115, 49] = Some confirmationSession
   \<and> includes_some [22909] confirmationKeywords
   \<and> (\<exists>resp w' s'.
        handleChatRequest 0 demoEnv (\<lambda>n. 5) 1800000 [117, 49] [22909] (Some [115, 49])
          confirmationWorld = Some (Inr resp, w')
        \<and> sessions w' [115, 49] = Some s'
        \<and> confirmed (intent s') \<and> userApproved (intent s')
        \<and> phase s' = Confirmation \<and> r_phase resp = Confirmation)"
proof -
  have ph: "phase confirmationSession = Confirmation"
    by (simp add: confirmationSession_def)
  have st: "[115, 49] \<noteq> ([] :: jstring)"
    "sessions confirmationWorld [115, 49] = Some confirmationSession"
    "sessionId confirmationSession = [115, 49]" "userId confirmationSession = [117, 49]"
    "\<forall>n. (\<lambda>n. 5) n \<le> expiresAt confirmationSession"
    by (simp_all add: confirmationWorld_def confirmationSession_def demoSession_def)
  have kw: "includes_some [22909] confirmationKeywords"
    by (simp add: includes_some_def confirmationKeywords_def)
  have av: "agentAvailable demoEnv" by (simp add: demoEnv_def)
  have uid: "[117, 49] \<noteq> ([] :: jstring)" by simp
  have "\<exists>r w'. handleChatRequest 0 demoEnv (\<lambda>n. 5) 1800000 [117, 49] [22909] (Some [115, 49])
          confirmationWorld = Some (r, w')"
    by (simp add: handleChatRequest_def acquireSession_def is_js_space_def readClock_def Let_def
        runTurn_def includes_some_def approvalKeywords_def or_else_def
        getSession_def confirmationWorld_def confirmationSession_def demoSession_def
        demoEnv_def)
  then obtain r w' where run:
    "handleChatRequest 0 demoEnv (\<lambda>n. 5) 1800000 [117, 49] [22909] (Some [115, 49])
          confirmationWorld = Some (r, w')" by blast
  from confirmation_never_reaches_data_collection
    [OF demo_calm st ph uid visible_message av kw run]
  obtain resp s' where "r = Inr resp" "sessions w' [115, 49] = Some s'"
    "confirmed (intent s')" "userApproved (intent s')" "phase s' = Confirmation"
    "r_phase resp = Confirmation" by blast
  with run demo_calm ph st(2) kw show ?thesis by blast
qed

end
